theory Spec2Isabelle
  imports Complex_Main "HOL-Library.Sublist"
begin

section \<open>The standalone browser-app packaging script\<close>

text \<open>
  A shallow embedding of \<^verbatim>\<open>scripts/theia-standalone-browser-app.ts\<close>. Every function of
  the script is a HOL function of the same name. What the script does to the outside is
  made explicit:
  \<^item> the file system is a map from path strings to nodes; paths are compared as strings
    (no normalisation, no symbolic links, no permissions), a read fails on a missing
    path, a write fails on a directory, the removal of a directory tree fails when the
    outside says so (the tree is busy, or is written to while it is removed), and a
    directory is not copied into itself;
  \<^item> every call of a library that touches the outside (child processes, the file
    system, the port wait) appends an event to the trace of the run;
  \<^item> what the outside answers (how the port wait settles, what a child process
    reports and does to the files, what the glob matches, what a package's version is,
    how JSON text is parsed and printed, whether a directory tree can be removed, when
    interrupt signals are handled) is read
    from a record \<open>env\<close>, one field for each library the script does not define;
  \<^item> a thrown exception is the outcome \<open>Threw\<close>, an \<^verbatim>\<open>await\<close> that never settles is
    the outcome \<open>Blocked\<close>.
  Where a function of the script is long, a part of its body has a name of its own:
  \<open>startVerdaccio_args\<close> (the argument list built in \<open>startVerdaccio\<close>), \<open>npmrc_token\<close> (the
  line written by \<open>createNpmrcFile\<close>), \<open>uniquePaths\<close> and \<open>publish_one\<close> (the two loops of
  \<open>publishExtensions\<close>), \<open>target_of\<close>, \<open>registry_of\<close>, \<open>pipeline\<close> and \<open>later_steps\<close> (the
  constants and the \<^verbatim>\<open>try\<close> block of \<open>execute\<close>), \<open>script\<close> (the call of \<open>execute\<close> at top
  level, with the signal listener that outlives it).
  Console output is not modelled. The registry process is taken to launch; the script
  is a module, so it runs in strict mode.
\<close>

subsection \<open>Values\<close>

type_synonym path = string

datatype error =
    Aborted
  | ChildError string
  | WaitFailure string
  | ENOENT path
  | EISDIR path
  | EBUSY path
  | CopyIntoSelf path path
  | RequireFailure path
  | JsonSyntax string
  | TypeError

text \<open>The object \<^verbatim>\<open>spawnSync\<close> returns: the signal's name or null, the launch error or
  undefined, the exit status or null.\<close>

record proc =
  signal :: "string option"
  perror :: "error option"
  status :: "int option"

text \<open>The values \<^verbatim>\<open>JSON.parse\<close> produces. An object is the list of its own properties in
  property order; a number is the exact value of the double that was read.\<close>

datatype json =
    JNull
  | JBool bool
  | JNum rat
  | JStr string
  | JArr "json list"
  | JObj "(string \<times> json) list"

datatype node = File string | Dir

type_synonym fs = "path \<Rightarrow> node option"

text \<open>The three closures the script returns as \<^verbatim>\<open>Disposable\<close>, each with the values it
  captured when it was created: the registry's storage directory; the original bytes
  of the credential file; nothing, where there was no credential file.\<close>

datatype disposable =
    VerdaccioHandle path
  | NpmrcRestore string
  | NpmrcRemove

text \<open>The calls that reach the outside. \<open>Spawn\<close> has the command, the arguments, whether
  the streams are inherited, and the value of \<^verbatim>\<open>VERDACCIO_STORAGE_PATH\<close>; \<open>Exec\<close> has the
  command, the arguments, the working directory, whether the streams are inherited,
  and the result object.\<close>

datatype event =
    Spawn string "string list" bool path
  | WaitPort int
  | Kill
  | Exec string "string list" path bool proc
  | Released disposable
  | FsExists path
  | FsRead path
  | FsWrite path string
  | FsRemove path
  | FsCopy path path
  | FsCopyFile path path
  | FsReadJson path
  | FsWriteJson path json
  | Glob string "string list"
  | Require path

text \<open>How the promise of \<^verbatim>\<open>waitPort\<close> settles. The script passes the port and no timeout,
  and without a timeout the wait goes on until the port accepts a connection: the
  promise is fulfilled when the port has opened, rejected with an error, or never
  settled.\<close>

datatype wait_outcome = Opened | Rejected error | Unsettled

text \<open>
  The answers of the outside: the port wait; how many interrupt signals are handled
  while the wait is pending and after \<open>execute\<close> has settled; \<^verbatim>\<open>path.resolve\<close>; the result
  object of a synchronous child process and what the child did to the files;
  \<^verbatim>\<open>glob.sync\<close> for a pattern and the ignore list; the version that \<^verbatim>\<open>require\<close> finds in a
  package manifest, or its exception; the parser and the printer of
  \<^verbatim>\<open>readJSONSync\<close> and \<^verbatim>\<open>writeJSONSync\<close>; the exception, if any, of the removal of the
  directory tree at a path.
\<close>

record env =
  wait_port :: wait_outcome
  sigints_during_wait :: nat
  sigints_after :: nat
  path_resolve :: "path \<Rightarrow> path"
  spawn_sync :: "string \<Rightarrow> string list \<Rightarrow> path \<Rightarrow> fs \<Rightarrow> proc \<times> fs"
  glob_sync :: "string \<Rightarrow> string list \<Rightarrow> path list"
  require_version :: "path \<Rightarrow> error + string"
  json_parse :: "string \<Rightarrow> error + json"
  json_stringify :: "json \<Rightarrow> string"
  remove_error :: "path \<Rightarrow> fs \<Rightarrow> error option"

record config =
  app :: path
  output_arg :: path
  includeExtensions :: "string list"
  excludeExtensions :: "string list"
  verdaccioConfig :: string
  verdaccioPort :: int
  verdaccioStorage :: path
  debug :: bool

record state =
  files :: fs
  disposables :: "disposable list"

subsection \<open>Effects\<close>

datatype 'a outcome = Returned 'a | Threw error | Blocked

type_synonym 'a io = "state \<Rightarrow> 'a outcome \<times> event list \<times> state"

definition io_return :: "'a \<Rightarrow> 'a io" where
  "io_return x s = (Returned x, [], s)"

definition io_throw :: "error \<Rightarrow> 'a io" where
  "io_throw e s = (Threw e, [], s)"

definition io_block :: "'a io" where
  "io_block s = (Blocked, [], s)"

definition emit :: "event \<Rightarrow> unit io" where
  "emit ev s = (Returned (), [ev], s)"

definition io_bind :: "'a io \<Rightarrow> ('a \<Rightarrow> 'b io) \<Rightarrow> 'b io" where
  "io_bind m f s =
     (case m s of
        (Returned a, evs, s1) \<Rightarrow> (case f a s1 of (out, evs2, s2) \<Rightarrow> (out, evs @ evs2, s2))
      | (Threw e, evs, s1) \<Rightarrow> (Threw e, evs, s1)
      | (Blocked, evs, s1) \<Rightarrow> (Blocked, evs, s1))"

definition io_then :: "unit io \<Rightarrow> 'b io \<Rightarrow> 'b io" where
  "io_then m n = io_bind m (\<lambda>_. n)"

text \<open>\<^verbatim>\<open>try { m } finally { c }\<close>: the block \<open>c\<close> runs once \<open>m\<close> has returned or thrown, and
  an exception of \<open>c\<close> replaces the outcome of \<open>m\<close>. If \<open>m\<close> never settles, \<open>c\<close> never
  runs.\<close>

definition io_finally :: "unit io \<Rightarrow> unit io \<Rightarrow> unit io" where
  "io_finally m c s =
     (case m s of
        (Blocked, evs, s1) \<Rightarrow> (Blocked, evs, s1)
      | (out, evs, s1) \<Rightarrow>
          (case c s1 of
             (Returned _, evs2, s2) \<Rightarrow> (out, evs @ evs2, s2)
           | (Threw e, evs2, s2) \<Rightarrow> (Threw e, evs @ evs2, s2)
           | (Blocked, evs2, s2) \<Rightarrow> (Blocked, evs @ evs2, s2)))"

subsection \<open>Strings\<close>

text \<open>\<^verbatim>\<open>s.endsWith('/')\<close>.\<close>

definition endsWith :: "string \<Rightarrow> string \<Rightarrow> bool" where
  "endsWith s t = suffix t s"

text \<open>\<^verbatim>\<open>s.split(' ')\<close>: the pieces between the separators, empty pieces included.\<close>

fun split_on :: "char \<Rightarrow> string \<Rightarrow> string list" where
  "split_on c [] = [[]]"
| "split_on c (x # xs) =
     (if x = c then [] # split_on c xs
      else (case split_on c xs of [] \<Rightarrow> [[x]] | h # t \<Rightarrow> (x # h) # t))"

text \<open>\<^verbatim>\<open>s.replace(pat, rep)\<close> with a string pattern: the first occurrence only.\<close>

fun replace_first :: "string \<Rightarrow> string \<Rightarrow> string \<Rightarrow> string" where
  "replace_first pat rep [] = (if pat = [] then rep else [])"
| "replace_first pat rep (c # cs) =
     (if prefix pat (c # cs) then rep @ drop (length pat) (c # cs)
      else c # replace_first pat rep cs)"

text \<open>A number in a template literal, for an integer that JavaScript prints in plain
  decimal digits (fewer than 22 of them; a port has at most five).\<close>

definition digit_char :: "nat \<Rightarrow> char" where
  "digit_char d = ''0123456789'' ! d"

fun show_nat :: "nat \<Rightarrow> string" where
  "show_nat n = (if n < 10 then [digit_char n] else show_nat (n div 10) @ [digit_char (n mod 10)])"

definition show_int :: "int \<Rightarrow> string" where
  "show_int i = (if i < 0 then CHR ''-'' # show_nat (nat (- i)) else show_nat (nat i))"

subsection \<open>The process executor\<close>

text \<open>A signal name is truthy when it is a non-empty string.\<close>

definition signalled :: "proc \<Rightarrow> bool" where
  "signalled p = (case signal p of None \<Rightarrow> False | Some n \<Rightarrow> n \<noteq> [])"

definition spawnSync :: "env \<Rightarrow> string \<Rightarrow> string list \<Rightarrow> path \<Rightarrow> bool \<Rightarrow> proc io" where
  "spawnSync E command args cwd inherit s =
     (case spawn_sync E command args cwd (files s) of
        (p, fs') \<Rightarrow> (Returned p, [Exec command args cwd inherit p], s\<lparr>files := fs'\<rparr>))"

definition executeProcess :: "env \<Rightarrow> string \<Rightarrow> string list \<Rightarrow> path \<Rightarrow> bool \<Rightarrow> unit io" where
  "executeProcess E command args target dbg =
     io_bind (spawnSync E command args target dbg) (\<lambda>p.
       if signalled p then io_throw Aborted
       else (case perror p of
               Some e \<Rightarrow> io_throw e
             | None \<Rightarrow> io_return ()))"

subsection \<open>The file system library\<close>

text \<open>A directory path may be written with a final slash; \<open>under d k\<close> says that the path
  \<open>k\<close> is \<open>d\<close> or lies below it.\<close>

definition strip_slash :: "path \<Rightarrow> path" where
  "strip_slash p = (if endsWith p ''/'' then butlast p else p)"

definition under :: "path \<Rightarrow> path \<Rightarrow> bool" where
  "under d k = (k = strip_slash d \<or> prefix (strip_slash d @ ''/'') k)"

definition set_files :: "fs \<Rightarrow> unit io" where
  "set_files f s = (Returned (), [], s\<lparr>files := f\<rparr>)"

definition existsSync :: "path \<Rightarrow> bool io" where
  "existsSync p s = (Returned (files s p \<noteq> None), [FsExists p], s)"

definition read_node :: "path \<Rightarrow> string io" where
  "read_node p s =
     (case files s p of
        None \<Rightarrow> io_throw (ENOENT p) s
      | Some Dir \<Rightarrow> io_throw (EISDIR p) s
      | Some (File c) \<Rightarrow> io_return c s)"

definition write_node :: "path \<Rightarrow> string \<Rightarrow> unit io" where
  "write_node p c s =
     (case files s p of
        Some Dir \<Rightarrow> io_throw (EISDIR p) s
      | _ \<Rightarrow> set_files ((files s)(p \<mapsto> File c)) s)"

definition readFileSync :: "path \<Rightarrow> string io" where
  "readFileSync p = io_then (emit (FsRead p)) (read_node p)"

definition writeFileSync :: "path \<Rightarrow> string \<Rightarrow> unit io" where
  "writeFileSync p c = io_then (emit (FsWrite p c)) (write_node p c)"

text \<open>\<^verbatim>\<open>removeSync\<close> removes a file or a whole tree, and is silent when nothing is there.
  The removal of a directory tree throws when the outside says so; what such a removal
  took away before it threw is not modelled, the files are left as they were.\<close>

definition removeSync :: "env \<Rightarrow> path \<Rightarrow> unit io" where
  "removeSync E p =
     io_then (emit (FsRemove p))
       (\<lambda>s. case (if files s (strip_slash p) = Some Dir then remove_error E p (files s) else None) of
              Some e \<Rightarrow> io_throw e s
            | None \<Rightarrow> set_files (\<lambda>k. if under p k then None else files s k) s)"

text \<open>\<^verbatim>\<open>copySync\<close> copies the tree at \<open>src\<close> over the tree at \<open>dst\<close>: \<open>rebase dst src k\<close> is the
  source of the destination path \<open>k\<close>. It throws when there is nothing at \<open>src\<close>, and when
  \<open>dst\<close> is \<open>src\<close> or lies below it.\<close>

definition rebase :: "path \<Rightarrow> path \<Rightarrow> path \<Rightarrow> path option" where
  "rebase dst src k =
     (if k = strip_slash dst then Some (strip_slash src)
      else if prefix (strip_slash dst @ ''/'') k
        then Some (strip_slash src @ drop (length (strip_slash dst)) k)
      else None)"

definition copy_tree :: "path \<Rightarrow> path \<Rightarrow> fs \<Rightarrow> fs" where
  "copy_tree src dst f k =
     (case rebase dst src k of
        None \<Rightarrow> f k
      | Some k' \<Rightarrow> (case f k' of None \<Rightarrow> f k | Some n \<Rightarrow> Some n))"

definition copySync :: "path \<Rightarrow> path \<Rightarrow> unit io" where
  "copySync src dst =
     io_then (emit (FsCopy src dst))
       (\<lambda>s. if files s (strip_slash src) = None then io_throw (ENOENT src) s
            else if under src (strip_slash dst) then io_throw (CopyIntoSelf src dst) s
            else set_files (copy_tree src dst (files s)) s)"

definition copyFileSync :: "path \<Rightarrow> path \<Rightarrow> unit io" where
  "copyFileSync src dst =
     io_then (emit (FsCopyFile src dst)) (io_bind (read_node src) (write_node dst))"

definition lift :: "error + 'a \<Rightarrow> 'a io" where
  "lift r = (case r of Inl e \<Rightarrow> io_throw e | Inr x \<Rightarrow> io_return x)"

definition readJSONSync :: "env \<Rightarrow> path \<Rightarrow> json io" where
  "readJSONSync E p =
     io_then (emit (FsReadJson p)) (io_bind (read_node p) (\<lambda>c. lift (json_parse E c)))"

definition writeJSONSync :: "env \<Rightarrow> path \<Rightarrow> json \<Rightarrow> unit io" where
  "writeJSONSync E p j =
     io_then (emit (FsWriteJson p j)) (write_node p (json_stringify E j))"

subsection \<open>Objects\<close>

text \<open>The own properties of an object are listed with the array indices first, in
  ascending order, then the other keys in the order they were created.\<close>

definition is_digit :: "char \<Rightarrow> bool" where
  "is_digit c = (c \<in> set ''0123456789'')"

definition dec_val :: "string \<Rightarrow> int" where
  "dec_val k = foldl (\<lambda>n c. 10 * n + (of_char c - 48)) 0 k"

definition array_index :: "string \<Rightarrow> int option" where
  "array_index k =
     (if k \<noteq> [] \<and> list_all is_digit k \<and> (k = ''0'' \<or> hd k \<noteq> CHR ''0'') \<and> dec_val k < 4294967295
      then Some (dec_val k) else None)"

definition key_before :: "string \<Rightarrow> string \<Rightarrow> bool" where
  "key_before k k' =
     (case array_index k of
        None \<Rightarrow> False
      | Some i \<Rightarrow> (case array_index k' of None \<Rightarrow> True | Some j \<Rightarrow> i < j))"

fun insert_key :: "string \<Rightarrow> json \<Rightarrow> (string \<times> json) list \<Rightarrow> (string \<times> json) list" where
  "insert_key k v [] = [(k, v)]"
| "insert_key k v (p # ps) =
     (if key_before k (fst p) then (k, v) # p # ps else p # insert_key k v ps)"

definition define_prop :: "string \<Rightarrow> json \<Rightarrow> (string \<times> json) list \<Rightarrow> (string \<times> json) list" where
  "define_prop k v ps =
     (if k \<in> set (map fst ps) then map (\<lambda>p. if fst p = k then (k, v) else p) ps
      else insert_key k v ps)"

definition indexed :: "'a list \<Rightarrow> (string \<times> 'a) list" where
  "indexed xs = zip (map show_nat [0..<length xs]) xs"

text \<open>What \<^verbatim>\<open>{ ...v }\<close> copies from \<open>v\<close>: the properties of an object, the elements of an
  array and the characters of a string under their indices, nothing from null,
  undefined, a boolean or a number.\<close>

definition own_props :: "json option \<Rightarrow> (string \<times> json) list" where
  "own_props v =
     (case v of
        Some (JObj ps) \<Rightarrow> ps
      | Some (JArr xs) \<Rightarrow> indexed xs
      | Some (JStr s) \<Rightarrow> indexed (map (\<lambda>c. JStr [c]) s)
      | _ \<Rightarrow> [])"

definition spread_merge :: "json option \<Rightarrow> json option \<Rightarrow> json" where
  "spread_merge a b = JObj (foldl (\<lambda>ps p. define_prop (fst p) (snd p) ps) [] (own_props a @ own_props b))"

definition truthy :: "json option \<Rightarrow> bool" where
  "truthy v =
     (case v of
        None \<Rightarrow> False
      | Some JNull \<Rightarrow> False
      | Some (JBool b) \<Rightarrow> b
      | Some (JNum n) \<Rightarrow> n \<noteq> 0
      | Some (JStr s) \<Rightarrow> s \<noteq> []
      | Some (JArr _) \<Rightarrow> True
      | Some (JObj _) \<Rightarrow> True)"

text \<open>\<^verbatim>\<open>j.resolutions\<close>: a TypeError on null, undefined on a value without the property.\<close>

definition get_resolutions :: "json \<Rightarrow> error + json option" where
  "get_resolutions j =
     (case j of
        JNull \<Rightarrow> Inl TypeError
      | JObj ps \<Rightarrow> Inr (map_of ps ''resolutions'')
      | _ \<Rightarrow> Inr None)"

text \<open>\<^verbatim>\<open>j.resolutions = v\<close> in strict mode, \<open>j\<close> seen as \<^verbatim>\<open>JSON.stringify\<close> will print it: a
  TypeError on null and on a primitive, and a property that the printer skips on an
  array.\<close>

definition set_resolutions :: "json \<Rightarrow> json \<Rightarrow> error + json" where
  "set_resolutions j v =
     (case j of
        JObj ps \<Rightarrow> Inr (JObj (define_prop ''resolutions'' v ps))
      | JArr xs \<Rightarrow> Inr (JArr xs)
      | _ \<Rightarrow> Inl TypeError)"

subsection \<open>The resource guard\<close>

text \<open>\<^verbatim>\<open>xs.forEach(f)\<close>: the calls in order; an exception of one call ends the loop.\<close>

fun forEach :: "('a \<Rightarrow> unit io) \<Rightarrow> 'a list \<Rightarrow> unit io" where
  "forEach f [] = io_return ()"
| "forEach f (x # xs) = io_then (f x) (forEach f xs)"

text \<open>The body of each \<^verbatim>\<open>dispose\<close> closure.\<close>

definition dispose :: "env \<Rightarrow> disposable \<Rightarrow> unit io" where
  "dispose E d =
     (case d of
        VerdaccioHandle verdaccioWorkingDir \<Rightarrow>
          io_then (emit Kill) (removeSync E verdaccioWorkingDir)
      | NpmrcRestore originalContent \<Rightarrow> writeFileSync ''.npmrc'' originalContent
      | NpmrcRemove \<Rightarrow> removeSync E ''.npmrc'')"

text \<open>\<^verbatim>\<open>cleanup\<close> walks the list as it is when \<open>cleanup\<close> is called. The event \<open>Released d\<close>
  marks the call of \<^verbatim>\<open>d.dispose()\<close>.\<close>

definition cleanup :: "env \<Rightarrow> unit io" where
  "cleanup E s = forEach (\<lambda>d. io_then (emit (Released d)) (dispose E d)) (disposables s) s"

definition push :: "disposable \<Rightarrow> unit io" where
  "push d s = (Returned (), [], s\<lparr>disposables := disposables s @ [d]\<rparr>)"

text \<open>
  The listener that \<open>execute\<close> adds for SIGINT calls \<open>cleanup\<close>. Node runs a signal
  listener from its event loop, so only while no JavaScript is running: here, while
  \<^verbatim>\<open>waitPort\<close> is pending, and after \<open>execute\<close> has settled. Every other \<^verbatim>\<open>await\<close> of the
  script awaits a value that is already there, and its continuation runs before the
  event loop is reached again; a signal raised meanwhile is handled afterwards.
  \<open>deliver n\<close> is \<open>n\<close> runs of the listener; an exception that escapes the listener ends
  the process, so no later run follows.
\<close>

fun deliver :: "env \<Rightarrow> nat \<Rightarrow> unit io" where
  "deliver E 0 = io_return ()"
| "deliver E (Suc n) = io_then (cleanup E) (deliver E n)"

subsection \<open>The steps of the pipeline\<close>

text \<open>The line written to the credential file: the registry without its scheme, the token
  in double quotes, a line feed.\<close>

definition npmrc_token :: "string \<Rightarrow> string" where
  "npmrc_token registry =
     replace_first ''http:'' [] registry @ ''/:_authToken='' @ [CHR 0x22] @ ''fooBar''
       @ [CHR 0x22, CHR 0x0A]"

definition createNpmrcFile :: "string \<Rightarrow> disposable io" where
  "createNpmrcFile registry =
     io_bind (existsSync ''.npmrc'') (\<lambda>ex.
     io_bind (if ex then io_bind (readFileSync ''.npmrc'') (\<lambda>originalContent.
                           io_return (NpmrcRestore originalContent))
              else io_return NpmrcRemove) (\<lambda>h.
     io_then (writeFileSync ''.npmrc'' (npmrc_token registry))
       (io_return h)))"

definition waitPort :: "env \<Rightarrow> int \<Rightarrow> unit io" where
  "waitPort E port =
     io_then (emit (WaitPort port))
       (io_then (deliver E (sigints_during_wait E))
          (case wait_port E of
             Opened \<Rightarrow> io_return ()
           | Rejected e \<Rightarrow> io_throw e
           | Unsettled \<Rightarrow> io_block))"

definition startVerdaccio_args :: "string \<Rightarrow> int \<Rightarrow> string list" where
  "startVerdaccio_args config port =
     (let configCmd = (if config \<noteq> [] then ''--config '' @ config else []);
          portCmd = (if port \<noteq> 0 then ''--listen '' @ show_int port else [])
      in split_on CHR '' '' (configCmd @ '' '' @ portCmd))"

definition startVerdaccio :: "env \<Rightarrow> string \<Rightarrow> int \<Rightarrow> path \<Rightarrow> bool \<Rightarrow> disposable io" where
  "startVerdaccio E config port storage dbg =
     (let verdaccioWorkingDir = path_resolve E storage in
      io_then (emit (Spawn ''verdaccio'' (startVerdaccio_args config port) dbg verdaccioWorkingDir))
     (io_bind (waitPort E port) (\<lambda>_.
      io_return (VerdaccioHandle verdaccioWorkingDir))))"

text \<open>\<^verbatim>\<open>[...new Set(paths)]\<close>: the first occurrence of each element, in order.\<close>

definition unique :: "'a list \<Rightarrow> 'a list" where
  "unique xs = foldl (\<lambda>acc x. if x \<in> set acc then acc else acc @ [x]) [] xs"

definition uniquePaths :: "env \<Rightarrow> string list \<Rightarrow> string list \<Rightarrow> path list" where
  "uniquePaths E includeExtensionPaths ignoreExtensionPaths =
     unique (concat (map (\<lambda>p. glob_sync E p ignoreExtensionPaths) includeExtensionPaths))"

definition require_package_version :: "env \<Rightarrow> path \<Rightarrow> string io" where
  "require_package_version E p = io_then (emit (Require p)) (lift (require_version E p))"

definition publish_one :: "env \<Rightarrow> string \<Rightarrow> bool \<Rightarrow> path \<Rightarrow> unit io" where
  "publish_one E registry dbg extensionPath =
     io_bind (require_package_version E (extensionPath @ ''/package.json'')) (\<lambda>version.
       executeProcess E ''yarn'' [''publish'', ''--registry'', registry, ''--new-version'', version]
         extensionPath dbg)"

definition publishExtensions :: "env \<Rightarrow> string \<Rightarrow> string list \<Rightarrow> string list \<Rightarrow> bool \<Rightarrow> unit io" where
  "publishExtensions E registry includeExtensionPaths ignoreExtensionPaths dbg =
     io_then (forEach (\<lambda>p. emit (Glob p ignoreExtensionPaths)) includeExtensionPaths)
       (forEach (publish_one E registry dbg)
          (uniquePaths E includeExtensionPaths ignoreExtensionPaths))"

definition copyApp :: "env \<Rightarrow> path \<Rightarrow> path \<Rightarrow> unit io" where
  "copyApp E a target =
     io_then (removeSync E target)
    (io_then (copySync a target)
             (copyFileSync ''yarn.lock'' (target @ ''yarn.lock'')))"

definition adaptApp :: "env \<Rightarrow> path \<Rightarrow> unit io" where
  "adaptApp E target =
     io_bind (readJSONSync E ''package.json'') (\<lambda>rootPackageJson.
     io_bind (lift (get_resolutions rootPackageJson)) (\<lambda>rootResolutions.
       if truthy rootResolutions then
         io_bind (readJSONSync E (target @ ''package.json'')) (\<lambda>appPackageJson.
         io_bind (lift (get_resolutions appPackageJson)) (\<lambda>appResolutions.
         io_bind (lift (set_resolutions appPackageJson (spread_merge appResolutions rootResolutions)))
           (writeJSONSync E (target @ ''package.json''))))
       else io_return ()))"

definition buildApp :: "env \<Rightarrow> path \<Rightarrow> string \<Rightarrow> bool \<Rightarrow> unit io" where
  "buildApp E target registry dbg =
     executeProcess E ''yarn''
       [''install'', ''--registry'', registry, ''--network-timeout'', ''100000''] target dbg"

definition minifyApp :: "env \<Rightarrow> path \<Rightarrow> bool \<Rightarrow> unit io" where
  "minifyApp E target dbg =
     io_then (executeProcess E ''yarn'' [''autoclean'', ''--init''] target dbg)
             (executeProcess E ''yarn'' [''autoclean'', ''--force''] target dbg)"

subsection \<open>The pipeline\<close>

definition target_of :: "config \<Rightarrow> path" where
  "target_of cfg = (if endsWith (output_arg cfg) ''/'' then output_arg cfg else output_arg cfg @ ''/'')"

definition registry_of :: "config \<Rightarrow> string" where
  "registry_of cfg = ''http://localhost:'' @ show_int (verdaccioPort cfg)"

text \<open>The steps of the \<^verbatim>\<open>try\<close> block that follow the two registrations.\<close>

definition later_steps :: "env \<Rightarrow> config \<Rightarrow> unit io" where
  "later_steps E cfg =
     (let target = target_of cfg; registry = registry_of cfg in
      io_then (publishExtensions E registry (includeExtensions cfg) (excludeExtensions cfg) (debug cfg))
     (io_then (copyApp E (app cfg) target)
     (io_then (adaptApp E target)
     (io_then (buildApp E target registry (debug cfg))
              (minifyApp E target (debug cfg))))))"

definition pipeline :: "env \<Rightarrow> config \<Rightarrow> unit io" where
  "pipeline E cfg =
     io_bind (startVerdaccio E (verdaccioConfig cfg) (verdaccioPort cfg) (verdaccioStorage cfg)
                (debug cfg)) (\<lambda>d.
     io_then (push d)
    (io_bind (createNpmrcFile (registry_of cfg)) (\<lambda>d.
     io_then (push d)
             (later_steps E cfg))))"

text \<open>\<open>execute\<close> starts with an empty list of disposables; \<open>pipeline\<close> is the body of its
  \<^verbatim>\<open>try\<close>, \<open>cleanup\<close> the body of its \<^verbatim>\<open>finally\<close>.\<close>

definition execute :: "env \<Rightarrow> config \<Rightarrow> fs \<Rightarrow> unit outcome \<times> event list \<times> state" where
  "execute E cfg f = io_finally (pipeline E cfg) (cleanup E) \<lparr>files = f, disposables = []\<rparr>"

text \<open>The whole run of the script: \<open>execute\<close>, then the runs of the SIGINT listener that
  the event loop makes once \<open>execute\<close> has settled.\<close>

definition script :: "env \<Rightarrow> config \<Rightarrow> fs \<Rightarrow> unit outcome \<times> event list \<times> state" where
  "script E cfg f =
     (case execute E cfg f of
        (Blocked, evs, s) \<Rightarrow> (Blocked, evs, s)
      | (out, evs, s) \<Rightarrow>
          (case deliver E (sigints_after E) s of (_, evs2, s2) \<Rightarrow> (out, evs @ evs2, s2)))"

subsection \<open>Reading a run\<close>

text \<open>A run is the triple of the outcome, the events in order, and the final state.
  \<open>emits P m\<close>: every event of \<open>m\<close> satisfies \<open>P\<close>. \<open>plain m\<close>: \<open>m\<close> settles and leaves the
  list of disposables as it was.\<close>

definition emits :: "(event \<Rightarrow> bool) \<Rightarrow> 'a io \<Rightarrow> bool" where
  "emits P m = (\<forall>s. \<forall>e \<in> set (fst (snd (m s))). P e)"

definition plain :: "'a io \<Rightarrow> bool" where
  "plain m = (\<forall>s. fst (m s) \<noteq> Blocked \<and> disposables (snd (snd (m s))) = disposables s)"

text \<open>The events a \<^verbatim>\<open>dispose\<close> closure of this script can cause, with the mark of its call.\<close>

definition is_cleanup_event :: "event \<Rightarrow> bool" where
  "is_cleanup_event e =
     (case e of
        Released _ \<Rightarrow> True
      | Kill \<Rightarrow> True
      | FsRemove _ \<Rightarrow> True
      | FsWrite p _ \<Rightarrow> p = ''.npmrc''
      | _ \<Rightarrow> False)"

text \<open>The handles whose \<^verbatim>\<open>dispose\<close> was called, in the order of the calls.\<close>

fun released :: "event list \<Rightarrow> disposable list" where
  "released [] = []"
| "released (Released d # es) = d # released es"
| "released (e # es) = released es"

text \<open>The list of disposables can only be empty, hold the registry's handle, or hold the
  registry's handle followed by a handle of the credential file.\<close>

definition guard_list :: "path \<Rightarrow> disposable list \<Rightarrow> bool" where
  "guard_list dir ds =
     (case ds of
        [] \<Rightarrow> True
      | [d] \<Rightarrow> d = VerdaccioHandle dir
      | [d, h] \<Rightarrow> d = VerdaccioHandle dir \<and> (case h of VerdaccioHandle _ \<Rightarrow> False | _ \<Rightarrow> True)
      | _ \<Rightarrow> False)"





text \<open>The working directories of the publish commands of a trace, in order.\<close>

fun published :: "event list \<Rightarrow> path list" where
  "published [] = []"
| "published (Exec c a d i p # es) =
     (if c = ''yarn'' \<and> take 1 a = [''publish''] then d # published es else published es)"
| "published (e # es) = published es"

text \<open>The paths the script may hand to the lockfile copy and to the manifest read and
  write, for the target \<open>t\<close>.\<close>

definition target_paths :: "path \<Rightarrow> event \<Rightarrow> bool" where
  "target_paths t e =
     (case e of
        FsCopyFile a b \<Rightarrow> a = ''yarn.lock'' \<and> b = t @ ''yarn.lock''
      | FsReadJson p \<Rightarrow> p = ''package.json'' \<or> p = t @ ''package.json''
      | FsWriteJson p _ \<Rightarrow> p = t @ ''package.json''
      | FsCopy a b \<Rightarrow> b = t
      | _ \<Rightarrow> True)"

text \<open>The two events every run starts with.\<close>

definition start_events :: "env \<Rightarrow> config \<Rightarrow> event list" where
  "start_events E cfg =
     [Spawn ''verdaccio'' (startVerdaccio_args (verdaccioConfig cfg) (verdaccioPort cfg)) (debug cfg)
        (path_resolve E (verdaccioStorage cfg)),
      WaitPort (verdaccioPort cfg)]"

subsection \<open>Sample runs\<close>

text \<open>A child process that exits with status 0, one that exits with status 1, one that a
  signal ended.\<close>

definition proc_ok :: proc where
  "proc_ok = \<lparr>signal = None, perror = None, status = Some 0\<rparr>"

definition proc_status1 :: proc where
  "proc_status1 = \<lparr>signal = None, perror = None, status = Some 1\<rparr>"

definition proc_killed :: proc where
  "proc_killed = \<lparr>signal = Some ''SIGTERM'', perror = None, status = None\<rparr>"

text \<open>A repository with two extension packages, matched by overlapping patterns, a root
  manifest \<open>R\<close> with resolutions and an application manifest \<open>A\<close>. The registry opens its
  port, every child process succeeds and every removal succeeds.\<close>

definition sample_root :: json where
  "sample_root = JObj [(''resolutions'', JObj [(''x'', JStr ''1.0'')])]"

definition sample_app :: json where
  "sample_app =
     JObj [(''name'', JStr ''app''),
           (''resolutions'', JObj [(''x'', JStr ''0.9''), (''y'', JStr ''2.0'')])]"

text \<open>A root manifest without resolutions.\<close>

definition sample_plain :: json where
  "sample_plain = JObj [(''name'', JStr ''root'')]"

definition sample_env :: env where
  "sample_env =
     \<lparr>wait_port = Opened,
      sigints_during_wait = 1,
      sigints_after = 0,
      path_resolve = (\<lambda>p. ''/w/'' @ p),
      spawn_sync = (\<lambda>c a d f. (proc_ok, f)),
      glob_sync = (\<lambda>p ig. if p = ''a/*'' then [''/w/a/p1'', ''/w/a/p2'']
                            else if p = ''a/p1'' then [''/w/a/p1''] else []),
      require_version = (\<lambda>p. Inr ''1.0.0''),
      json_parse = (\<lambda>c. if c = ''R'' then Inr sample_root
                           else if c = ''A'' then Inr sample_app
                           else if c = ''N'' then Inr sample_plain else Inl (JsonSyntax c)),
      json_stringify = (\<lambda>j. ''J''),
      remove_error = (\<lambda>p f. None)\<rparr>"

definition sample_config :: config where
  "sample_config =
     \<lparr>app = ''applications/browser'',
      output_arg = ''../target'',
      includeExtensions = [''a/*'', ''a/p1''],
      excludeExtensions = [],
      verdaccioConfig = ''configs/verdaccio.config.yaml'',
      verdaccioPort = 4873,
      verdaccioStorage = ''verdaccio-storage'',
      debug = False\<rparr>"

definition sample_files :: fs where
  "sample_files =
     [''package.json'' \<mapsto> File ''R'',
      ''yarn.lock'' \<mapsto> File ''L'',
      ''.npmrc'' \<mapsto> File ''secret'',
      ''applications/browser'' \<mapsto> Dir,
      ''applications/browser/package.json'' \<mapsto> File ''A'']"

text \<open>The state after the application was copied to the target, and the same state with
  a root manifest without resolutions.\<close>

definition sample_copied :: state where
  "sample_copied =
     \<lparr>files = sample_files(''../target/package.json'' \<mapsto> File ''A''), disposables = []\<rparr>"

definition sample_copied_plain :: state where
  "sample_copied_plain =
     \<lparr>files = sample_files(''package.json'' \<mapsto> File ''N'', ''../target/package.json'' \<mapsto> File ''A''),
      disposables = []\<rparr>"

text \<open>Variants of the sample: the publish command of the first package is ended by a
  signal; every child exits with status 1; one interrupt is handled after \<open>execute\<close> has
  settled; the port wait never settles, is rejected; the storage directory of the
  registry is there and its removal throws.\<close>

definition killed_env :: env where
  "killed_env =
     sample_env\<lparr>spawn_sync := (\<lambda>c a d f. (if d = ''/w/a/p1'' then proc_killed else proc_ok, f))\<rparr>"

definition status1_env :: env where
  "status1_env = sample_env\<lparr>spawn_sync := (\<lambda>c a d f. (proc_status1, f))\<rparr>"

definition late_sigint_env :: env where
  "late_sigint_env = sample_env\<lparr>sigints_after := 1\<rparr>"

definition unsettled_env :: env where
  "unsettled_env = sample_env\<lparr>wait_port := Unsettled\<rparr>"

definition rejected_env :: env where
  "rejected_env = sample_env\<lparr>wait_port := Rejected (WaitFailure ''ENOTFOUND'')\<rparr>"

definition busy_storage_env :: env where
  "busy_storage_env =
     sample_env\<lparr>remove_error :=
       (\<lambda>p f. if p = ''/w/verdaccio-storage'' then Some (EBUSY p) else None)\<rparr>"

definition busy_storage_files :: fs where
  "busy_storage_files = sample_files(''/w/verdaccio-storage'' \<mapsto> Dir)"

section \<open>Properties\<close>

text \<open>The equations that evaluate a run on given inputs.\<close>

lemmas sample_defs = sample_env_def sample_config_def sample_files_def sample_root_def
  sample_app_def sample_plain_def sample_copied_def sample_copied_plain_def proc_ok_def
  proc_status1_def proc_killed_def killed_env_def status1_env_def late_sigint_env_def
  unsettled_env_def rejected_env_def busy_storage_env_def busy_storage_files_def

lemmas run_defs = io_return_def io_throw_def io_block_def emit_def io_bind_def io_then_def
  io_finally_def set_files_def existsSync_def read_node_def write_node_def readFileSync_def
  writeFileSync_def removeSync_def copySync_def copyFileSync_def lift_def readJSONSync_def
  writeJSONSync_def spawnSync_def executeProcess_def signalled_def dispose_def cleanup_def push_def
  createNpmrcFile_def waitPort_def startVerdaccio_def startVerdaccio_args_def publish_one_def
  publishExtensions_def require_package_version_def copyApp_def adaptApp_def buildApp_def
  minifyApp_def later_steps_def pipeline_def execute_def script_def uniquePaths_def unique_def
  target_of_def registry_of_def endsWith_def Let_def get_resolutions_def set_resolutions_def
  truthy_def under_def strip_slash_def copy_tree_def rebase_def suffix_to_prefix show_int_def
  digit_char_def spread_merge_def own_props_def define_prop_def key_before_def array_index_def
  is_digit_def dec_val_def start_events_def npmrc_token_def

subsection \<open>Composing runs\<close>

lemma io_bind_cases:
  assumes "io_bind m f s = (out, evs, s')"
  obtains (ret) a evs1 s1 evs2 where "m s = (Returned a, evs1, s1)" "f a s1 = (out, evs2, s')" "evs = evs1 @ evs2"
  | (thr) e where "m s = (Threw e, evs, s')" "out = Threw e"
  | (blk) "m s = (Blocked, evs, s')" "out = Blocked"
  using assms unfolding io_bind_def
  by (auto split: prod.splits outcome.splits)

lemma io_then_cases:
  assumes "io_then m n s = (out, evs, s')"
  obtains (ret) evs1 s1 evs2 where "m s = (Returned (), evs1, s1)" "n s1 = (out, evs2, s')" "evs = evs1 @ evs2"
  | (thr) e where "m s = (Threw e, evs, s')" "out = Threw e"
  | (blk) "m s = (Blocked, evs, s')" "out = Blocked"
  using assms unfolding io_then_def by (auto elim!: io_bind_cases)

lemma emitsI: "(\<And>s out evs s' e. m s = (out, evs, s') \<Longrightarrow> e \<in> set evs \<Longrightarrow> P e) \<Longrightarrow> emits P m"
  unfolding emits_def by (metis prod.collapse)

lemma emitsD: "emits P m \<Longrightarrow> m s = (out, evs, s') \<Longrightarrow> e \<in> set evs \<Longrightarrow> P e"
  unfolding emits_def by (drule spec[of _ s]) simp

lemma emits_bind: "emits P m \<Longrightarrow> (\<And>a. emits P (f a)) \<Longrightarrow> emits P (io_bind m f)"
  by (rule emitsI, erule io_bind_cases) (auto dest: emitsD)

lemma emits_then: "emits P m \<Longrightarrow> emits P n \<Longrightarrow> emits P (io_then m n)"
  unfolding io_then_def by (rule emits_bind)

lemma emits_return: "emits P (io_return x)" and emits_throw: "emits P (io_throw e)"
  and emits_block: "emits P io_block" and emits_set_files: "emits P (set_files g)"
  and emits_push: "emits P (push d)"
  by (simp_all add: emits_def io_return_def io_throw_def io_block_def set_files_def push_def)

lemma emits_emit: "P ev \<Longrightarrow> emits P (emit ev)"
  by (simp add: emits_def emit_def)

lemma emits_lift: "emits P (lift r)"
  by (cases r) (simp_all add: lift_def emits_return emits_throw)

lemma emits_read_node: "emits P (read_node p)"
  by (simp add: emits_def read_node_def io_throw_def io_return_def split: option.splits node.splits)

lemma emits_write_node: "emits P (write_node p c)"
  by (simp add: emits_def write_node_def io_throw_def set_files_def split: option.splits node.splits)

lemma emits_forEach: "(\<And>x. x \<in> set xs \<Longrightarrow> emits P (g x)) \<Longrightarrow> emits P (forEach g xs)"
  by (induction xs) (simp_all add: emits_return emits_then)

lemma emits_mono: "emits P m \<Longrightarrow> (\<And>e. P e \<Longrightarrow> Q e) \<Longrightarrow> emits Q m"
  unfolding emits_def by blast


lemma emits_if: "emits P a \<Longrightarrow> emits P b \<Longrightarrow> emits P (if c then a else b)"
  by simp


lemmas emits_basic = emits_bind emits_then emits_return emits_throw emits_block emits_set_files
  emits_push emits_emit emits_lift emits_read_node emits_write_node emits_if

lemma emits_existsSync: "P (FsExists p) \<Longrightarrow> emits P (existsSync p)"
  by (simp add: emits_def existsSync_def)

lemma emits_readFileSync: "P (FsRead p) \<Longrightarrow> emits P (readFileSync p)"
  unfolding readFileSync_def by (intro emits_basic)

lemma emits_writeFileSync: "P (FsWrite p c) \<Longrightarrow> emits P (writeFileSync p c)"
  unfolding writeFileSync_def by (intro emits_basic)

lemma emits_removeSync: "P (FsRemove p) \<Longrightarrow> emits P (removeSync E p)"
  by (simp add: emits_def removeSync_def io_then_def io_bind_def emit_def set_files_def io_throw_def
        split: option.splits)

lemma emits_copySync: "P (FsCopy a b) \<Longrightarrow> emits P (copySync a b)"
  by (simp add: emits_def copySync_def io_then_def io_bind_def emit_def set_files_def io_throw_def)

lemma emits_copyFileSync: "P (FsCopyFile a b) \<Longrightarrow> emits P (copyFileSync a b)"
  unfolding copyFileSync_def by (intro emits_basic)

lemma emits_readJSONSync: "P (FsReadJson p) \<Longrightarrow> emits P (readJSONSync E p)"
  unfolding readJSONSync_def by (intro emits_basic)

lemma emits_writeJSONSync: "P (FsWriteJson p j) \<Longrightarrow> emits P (writeJSONSync E p j)"
  unfolding writeJSONSync_def by (intro emits_basic)

lemma emits_spawnSync: "(\<And>p. P (Exec c a d i p)) \<Longrightarrow> emits P (spawnSync E c a d i)"
  by (simp add: emits_def spawnSync_def split: prod.splits)

lemma emits_executeProcess: "(\<And>p. P (Exec c a d i p)) \<Longrightarrow> emits P (executeProcess E c a d i)"
  unfolding executeProcess_def
  by (intro emits_bind emits_spawnSync) (simp_all add: emits_basic split: option.splits)

lemma emits_dispose: "(\<And>e. is_cleanup_event e \<Longrightarrow> P e) \<Longrightarrow> emits P (dispose E d)"
  unfolding dispose_def
  by (cases d) (simp_all add: emits_basic emits_removeSync emits_writeFileSync is_cleanup_event_def)

lemma emits_cleanup: "(\<And>e. is_cleanup_event e \<Longrightarrow> P e) \<Longrightarrow> emits P (cleanup E)"
proof (rule emitsI)
  fix s out evs s' e
  assume P: "\<And>e. is_cleanup_event e \<Longrightarrow> P e"
    and run: "(cleanup E) s = (out, evs, s')" and e: "e \<in> set evs"
  have "emits P (forEach (\<lambda>d. io_then (emit (Released d)) (dispose E d)) (disposables s))"
    by (intro emits_forEach emits_then emits_emit emits_dispose P) (simp_all add: is_cleanup_event_def)
  then show "P e" using run e unfolding cleanup_def by (rule emitsD)
qed

lemma emits_deliver: "(\<And>e. is_cleanup_event e \<Longrightarrow> P e) \<Longrightarrow> emits P (deliver E n)"
  by (induction n) (simp_all add: emits_return emits_then emits_cleanup)

lemma emits_waitPort:
  "(\<And>e. is_cleanup_event e \<Longrightarrow> P e) \<Longrightarrow> P (WaitPort port) \<Longrightarrow> emits P (waitPort E port)"
  unfolding waitPort_def
  by (intro emits_then emits_emit emits_deliver) (simp_all add: emits_basic split: wait_outcome.splits)

lemma emits_startVerdaccio:
  "(\<And>e. is_cleanup_event e \<Longrightarrow> P e) \<Longrightarrow> P (WaitPort port) \<Longrightarrow>
   P (Spawn ''verdaccio'' (startVerdaccio_args config port) dbg (path_resolve E storage)) \<Longrightarrow>
   emits P (startVerdaccio E config port storage dbg)"
  unfolding startVerdaccio_def Let_def
  by (intro emits_then emits_bind emits_emit emits_waitPort emits_return)

lemma emits_createNpmrcFile:
  "P (FsExists ''.npmrc'') \<Longrightarrow> P (FsRead ''.npmrc'') \<Longrightarrow> (\<And>c. P (FsWrite ''.npmrc'' c)) \<Longrightarrow>
   emits P (createNpmrcFile registry)"
  unfolding createNpmrcFile_def
  by (intro emits_basic emits_existsSync emits_readFileSync emits_writeFileSync)

lemma emits_publish_one:
  "(\<And>p. P (Require p)) \<Longrightarrow> (\<And>v p. P (Exec ''yarn'' [''publish'', ''--registry'', registry, ''--new-version'', v] d dbg p)) \<Longrightarrow>
   emits P (publish_one E registry dbg d)"
  unfolding publish_one_def require_package_version_def
  by (intro emits_basic emits_executeProcess)

lemma emits_publishExtensions:
  "(\<And>p. P (Require p)) \<Longrightarrow> (\<And>p. P (Glob p ign)) \<Longrightarrow>
   (\<And>v d p. P (Exec ''yarn'' [''publish'', ''--registry'', registry, ''--new-version'', v] d dbg p)) \<Longrightarrow>
   emits P (publishExtensions E registry inc ign dbg)"
  unfolding publishExtensions_def
  by (intro emits_then emits_forEach emits_emit emits_publish_one)

lemma emits_copyApp:
  "P (FsRemove t) \<Longrightarrow> P (FsCopy a t) \<Longrightarrow> P (FsCopyFile ''yarn.lock'' (t @ ''yarn.lock'')) \<Longrightarrow>
   emits P (copyApp E a t)"
  unfolding copyApp_def
  by (intro emits_then emits_removeSync emits_copySync emits_copyFileSync)

lemma emits_adaptApp:
  "P (FsReadJson ''package.json'') \<Longrightarrow> P (FsReadJson (t @ ''package.json'')) \<Longrightarrow>
   (\<And>j. P (FsWriteJson (t @ ''package.json'') j)) \<Longrightarrow> emits P (adaptApp E t)"
  unfolding adaptApp_def
  by (intro emits_basic emits_readJSONSync emits_writeJSONSync)

lemma emits_buildApp:
  "(\<And>p. P (Exec ''yarn'' [''install'', ''--registry'', registry, ''--network-timeout'', ''100000''] t dbg p)) \<Longrightarrow>
   emits P (buildApp E t registry dbg)"
  unfolding buildApp_def by (intro emits_executeProcess)

lemma emits_minifyApp:
  "(\<And>p. P (Exec ''yarn'' [''autoclean'', ''--init''] t dbg p)) \<Longrightarrow>
   (\<And>p. P (Exec ''yarn'' [''autoclean'', ''--force''] t dbg p)) \<Longrightarrow>
   emits P (minifyApp E t dbg)"
  unfolding minifyApp_def by (intro emits_then emits_executeProcess)

subsection \<open>Steps that settle and keep the list of disposables\<close>

lemma plainI:
  "(\<And>s out evs s'. m s = (out, evs, s') \<Longrightarrow> out \<noteq> Blocked \<and> disposables s' = disposables s) \<Longrightarrow> plain m"
  unfolding plain_def by (metis prod.collapse)

lemma plainD: "plain m \<Longrightarrow> m s = (out, evs, s') \<Longrightarrow> out \<noteq> Blocked \<and> disposables s' = disposables s"
  unfolding plain_def by (drule spec[of _ s]) simp

lemma plain_bind:
  assumes m: "plain m" and f: "\<And>a. plain (f a)"
  shows "plain (io_bind m f)"
proof (rule plainI)
  fix s out evs s'
  assume "io_bind m f s = (out, evs, s')"
  then show "out \<noteq> Blocked \<and> disposables s' = disposables s"
  proof (cases rule: io_bind_cases)
    case (ret a evs1 s1 evs2)
    from plainD[OF m ret(1)] plainD[OF f ret(2)] show ?thesis by simp
  next
    case (thr e)
    from plainD[OF m thr(1)] thr(2) show ?thesis by simp
  next
    case blk
    from plainD[OF m blk(1)] show ?thesis by simp
  qed
qed

lemma plain_then: "plain m \<Longrightarrow> plain n \<Longrightarrow> plain (io_then m n)"
  unfolding io_then_def by (rule plain_bind)

lemma plain_return: "plain (io_return x)" and plain_throw: "plain (io_throw e)"
  and plain_set_files: "plain (set_files g)" and plain_emit: "plain (emit ev)"
  by (simp_all add: plain_def io_return_def io_throw_def set_files_def emit_def)

lemma plain_lift: "plain (lift r)"
  by (cases r) (simp_all add: lift_def plain_return plain_throw)

lemma plain_read_node: "plain (read_node p)"
  by (simp add: plain_def read_node_def io_throw_def io_return_def split: option.splits node.splits)

lemma plain_write_node: "plain (write_node p c)"
  by (simp add: plain_def write_node_def io_throw_def set_files_def split: option.splits node.splits)

lemma plain_if: "plain a \<Longrightarrow> plain b \<Longrightarrow> plain (if c then a else b)"
  by simp

lemma plain_forEach: "(\<And>x. x \<in> set xs \<Longrightarrow> plain (g x)) \<Longrightarrow> plain (forEach g xs)"
  by (induction xs) (simp_all add: plain_return plain_then)

lemmas plain_basic = plain_bind plain_then plain_return plain_throw plain_set_files plain_emit
  plain_lift plain_read_node plain_write_node plain_if

lemma plain_existsSync: "plain (existsSync p)"
  by (simp add: plain_def existsSync_def)

lemma plain_readFileSync: "plain (readFileSync p)"
  unfolding readFileSync_def by (intro plain_basic)

lemma plain_writeFileSync: "plain (writeFileSync p c)"
  unfolding writeFileSync_def by (intro plain_basic)

lemma plain_removeSync: "plain (removeSync E p)"
  by (simp add: plain_def removeSync_def io_then_def io_bind_def emit_def set_files_def io_throw_def
        split: option.splits)

lemma plain_copySync: "plain (copySync a b)"
  by (simp add: plain_def copySync_def io_then_def io_bind_def emit_def set_files_def io_throw_def)

lemma plain_copyFileSync: "plain (copyFileSync a b)"
  unfolding copyFileSync_def by (intro plain_basic)

lemma plain_readJSONSync: "plain (readJSONSync E p)"
  unfolding readJSONSync_def by (intro plain_basic)

lemma plain_writeJSONSync: "plain (writeJSONSync E p j)"
  unfolding writeJSONSync_def by (intro plain_basic)

lemma plain_spawnSync: "plain (spawnSync E c a d i)"
  by (simp add: plain_def spawnSync_def split: prod.splits)

lemma plain_executeProcess: "plain (executeProcess E c a d i)"
  unfolding executeProcess_def
  by (intro plain_bind plain_spawnSync) (simp_all add: plain_basic split: option.splits)

lemma plain_dispose: "plain (dispose E d)"
  unfolding dispose_def
  by (cases d) (simp_all add: plain_basic plain_removeSync plain_writeFileSync)

lemma plain_cleanup: "plain (cleanup E)"
proof (rule plainI)
  fix s out evs s'
  assume run: "(cleanup E) s = (out, evs, s')"
  have "plain (forEach (\<lambda>d. io_then (emit (Released d)) (dispose E d)) (disposables s))"
    by (intro plain_forEach plain_then plain_emit plain_dispose)
  then show "out \<noteq> Blocked \<and> disposables s' = disposables s"
    using run unfolding cleanup_def by (rule plainD)
qed

lemma plain_deliver: "plain (deliver E n)"
  by (induction n) (simp_all add: plain_return plain_then plain_cleanup)

lemma plain_createNpmrcFile: "plain (createNpmrcFile registry)"
  unfolding createNpmrcFile_def
  by (intro plain_basic plain_existsSync plain_readFileSync plain_writeFileSync)

lemma plain_publish_one: "plain (publish_one E registry dbg d)"
  unfolding publish_one_def require_package_version_def
  by (intro plain_basic plain_executeProcess)

lemma plain_publishExtensions: "plain (publishExtensions E registry inc ign dbg)"
  unfolding publishExtensions_def
  by (intro plain_then plain_forEach plain_emit plain_publish_one)

lemma plain_copyApp: "plain (copyApp E a t)"
  unfolding copyApp_def
  by (intro plain_then plain_removeSync plain_copySync plain_copyFileSync)

lemma plain_adaptApp: "plain (adaptApp E t)"
  unfolding adaptApp_def
  by (intro plain_basic plain_readJSONSync plain_writeJSONSync)

lemma plain_buildApp: "plain (buildApp E t registry dbg)"
  unfolding buildApp_def by (intro plain_executeProcess)

lemma plain_minifyApp: "plain (minifyApp E t dbg)"
  unfolding minifyApp_def by (intro plain_then plain_executeProcess)

lemma plain_later_steps: "plain (later_steps E cfg)"
  unfolding later_steps_def Let_def
  by (intro plain_then plain_publishExtensions plain_copyApp plain_adaptApp plain_buildApp
      plain_minifyApp)

lemma emits_later_steps:
  assumes "\<And>p. P (Require p)" "\<And>p. P (Glob p (excludeExtensions cfg))"
    "\<And>c a d p. P (Exec c a d (debug cfg) p)"
    "P (FsRemove (target_of cfg))" "P (FsCopy (app cfg) (target_of cfg))"
    "P (FsCopyFile ''yarn.lock'' (target_of cfg @ ''yarn.lock''))"
    "P (FsReadJson ''package.json'')" "P (FsReadJson (target_of cfg @ ''package.json''))"
    "\<And>j. P (FsWriteJson (target_of cfg @ ''package.json'') j)"
  shows "emits P (later_steps E cfg)"
  unfolding later_steps_def Let_def
  by (intro emits_then emits_publishExtensions emits_copyApp emits_adaptApp emits_buildApp
      emits_minifyApp assms)

subsection \<open>The resource guard\<close>

lemma released_append: "released (xs @ ys) = released xs @ released ys"
  by (induction xs rule: released.induct) simp_all

lemma released_nil: "\<forall>e \<in> set evs. released [e] = [] \<Longrightarrow> released evs = []"
  by (induction evs rule: released.induct) simp_all

lemma released_cleanup_only: "\<not> is_cleanup_event e \<Longrightarrow> released [e] = []"
  by (cases e) (simp_all add: is_cleanup_event_def)

lemma dispose_silent: "emits (\<lambda>e. released [e] = []) (dispose E d)"
  unfolding dispose_def
  by (cases d) (simp_all add: emits_basic emits_removeSync emits_writeFileSync)

lemma forEach_released:
  assumes "forEach (\<lambda>d. io_then (emit (Released d)) (dispose E d)) ds s = (out, evs, s')"
  shows "prefix (released evs) ds \<and> (out = Returned () \<longrightarrow> released evs = ds)"
  using assms
proof (induction ds arbitrary: s out evs s')
  case Nil
  then show ?case by (simp add: io_return_def)
next
  case (Cons d ds)
  obtain o1 e1 s1 where d1: "dispose E d s = (o1, e1, s1)" by (cases "dispose E d s") auto
  have r1: "released e1 = []"
    by (rule released_nil) (auto dest: emitsD[OF dispose_silent d1])
  have step: "io_then (emit (Released d)) (dispose E d) s = (o1, Released d # e1, s1)"
    using d1 by (simp add: io_then_def io_bind_def emit_def)
  from Cons.prems
  have "io_then (io_then (emit (Released d)) (dispose E d))
          (forEach (\<lambda>d. io_then (emit (Released d)) (dispose E d)) ds) s = (out, evs, s')"
    by simp
  then show ?case
  proof (cases rule: io_then_cases)
    case (ret evs1 s1' evs2)
    with step have e: "evs1 = Released d # e1" by simp
    from Cons.IH[OF ret(2)] ret(3) e show ?thesis by (simp add: released_append r1)
  next
    case (thr x)
    with step have "evs = Released d # e1" by simp
    with thr(2) show ?thesis by (simp add: r1)
  next
    case blk
    with step have "o1 = Blocked" by simp
    with plainD[OF plain_dispose d1] show ?thesis by simp
  qed
qed

lemma cleanup_released:
  assumes "cleanup E s = (out, evs, s')"
  shows "prefix (released evs) (disposables s) \<and> (out = Returned () \<longrightarrow> released evs = disposables s)"
  using assms unfolding cleanup_def by (rule forEach_released)

lemma deliver_empty: "disposables s = [] \<Longrightarrow> deliver E k s = (Returned (), [], s)"
  by (induction k) (simp_all add: io_return_def io_then_def io_bind_def cleanup_def)

lemma startVerdaccio_empty:
  assumes "disposables s = []"
  shows "startVerdaccio E config port storage dbg s =
     ((case wait_port E of
         Opened \<Rightarrow> Returned (VerdaccioHandle (path_resolve E storage))
       | Rejected e \<Rightarrow> Threw e
       | Unsettled \<Rightarrow> Blocked),
      [Spawn ''verdaccio'' (startVerdaccio_args config port) dbg (path_resolve E storage), WaitPort port],
      s)"
  by (simp add: startVerdaccio_def waitPort_def Let_def io_then_def io_bind_def emit_def
      deliver_empty[OF assms] io_return_def io_throw_def io_block_def split: wait_outcome.splits)

lemma createNpmrcFile_handle:
  assumes "createNpmrcFile registry s = (Returned h, evs, s')"
  shows "h \<noteq> VerdaccioHandle d"
  using assms unfolding createNpmrcFile_def
  by (auto elim!: io_bind_cases io_then_cases simp: io_return_def split: if_splits)

subsection \<open>The runs of the pipeline\<close>

lemma pipeline_cases:
  assumes "pipeline E cfg \<lparr>files = f, disposables = []\<rparr> = (out, evs, s')"
  obtains
    (blocked) "wait_port E = Unsettled" "out = Blocked" "evs = start_events E cfg"
      "s' = \<lparr>files = f, disposables = []\<rparr>"
  | (rejected) e where "wait_port E = Rejected e" "out = Threw e" "evs = start_events E cfg"
      "s' = \<lparr>files = f, disposables = []\<rparr>"
  | (unregistered) e evs2 where "wait_port E = Opened"
      "createNpmrcFile (registry_of cfg)
         \<lparr>files = f, disposables = [VerdaccioHandle (path_resolve E (verdaccioStorage cfg))]\<rparr>
       = (Threw e, evs2, s')"
      "out = Threw e" "evs = start_events E cfg @ evs2"
  | (registered) h evs2 s2 evs3 where "wait_port E = Opened"
      "createNpmrcFile (registry_of cfg)
         \<lparr>files = f, disposables = [VerdaccioHandle (path_resolve E (verdaccioStorage cfg))]\<rparr>
       = (Returned h, evs2, s2)"
      "later_steps E cfg (s2\<lparr>disposables := disposables s2 @ [h]\<rparr>) = (out, evs3, s')"
      "evs = start_events E cfg @ evs2 @ evs3"
proof -
  let ?s0 = "\<lparr>files = f, disposables = []\<rparr>"
  let ?V = "VerdaccioHandle (path_resolve E (verdaccioStorage cfg))"
  have sv: "startVerdaccio E (verdaccioConfig cfg) (verdaccioPort cfg) (verdaccioStorage cfg) (debug cfg) ?s0
     = ((case wait_port E of Opened \<Rightarrow> Returned ?V | Rejected e \<Rightarrow> Threw e | Unsettled \<Rightarrow> Blocked),
        start_events E cfg, ?s0)"
    by (simp add: startVerdaccio_empty start_events_def)
  show thesis
  proof (cases "wait_port E")
    case Unsettled
    with assms sv show ?thesis by (intro blocked) (simp_all add: pipeline_def io_bind_def)
  next
    case (Rejected e)
    with assms sv show ?thesis by (intro rejected[of e]) (simp_all add: pipeline_def io_bind_def)
  next
    case Opened
    let ?s1 = "\<lparr>files = f, disposables = [?V]\<rparr>"
    obtain o2 e2 s2 where c: "createNpmrcFile (registry_of cfg) ?s1 = (o2, e2, s2)"
      by (cases "createNpmrcFile (registry_of cfg) ?s1") auto
    show ?thesis
    proof (cases o2)
      case (Returned h)
      obtain o3 e3 s3 where l: "later_steps E cfg (s2\<lparr>disposables := disposables s2 @ [h]\<rparr>) = (o3, e3, s3)"
        by (cases "later_steps E cfg (s2\<lparr>disposables := disposables s2 @ [h]\<rparr>)") auto
      from assms sv Opened c Returned l
      have "out = o3 \<and> evs = start_events E cfg @ e2 @ e3 \<and> s' = s3"
        by (simp add: pipeline_def io_bind_def io_then_def push_def)
      with c l Returned Opened show ?thesis by (intro registered[of h e2 s2 e3]) simp_all
    next
      case (Threw e)
      from assms sv Opened c Threw
      have "out = Threw e \<and> evs = start_events E cfg @ e2 \<and> s' = s2"
        by (simp add: pipeline_def io_bind_def io_then_def push_def)
      with c Threw Opened show ?thesis by (intro unregistered[of e e2]) simp_all
    next
      case Blocked
      with plainD[OF plain_createNpmrcFile c] show ?thesis by simp
    qed
  qed
qed

lemma released_start_events: "released (start_events E cfg) = []"
  by (simp add: start_events_def)

lemma createNpmrcFile_silent: "emits (\<lambda>e. released [e] = []) (createNpmrcFile registry)"
  by (intro emits_createNpmrcFile) simp_all

lemma later_steps_silent: "emits (\<lambda>e. released [e] = []) (later_steps E cfg)"
  by (intro emits_later_steps) simp_all

lemma pipeline_guard:
  assumes "pipeline E cfg \<lparr>files = f, disposables = []\<rparr> = (out, evs, s')"
  shows "released evs = [] \<and> guard_list (path_resolve E (verdaccioStorage cfg)) (disposables s')
     \<and> (out = Blocked \<longrightarrow> disposables s' = [])"
  using assms
proof (cases rule: pipeline_cases)
  case blocked
  then show ?thesis by (simp add: released_start_events guard_list_def)
next
  case (rejected e)
  then show ?thesis by (simp add: released_start_events guard_list_def)
next
  case (unregistered e evs2)
  from plainD[OF plain_createNpmrcFile unregistered(2)]
  have "disposables s' = [VerdaccioHandle (path_resolve E (verdaccioStorage cfg))]" by simp
  moreover have "released evs2 = []"
    by (rule released_nil) (auto dest: emitsD[OF createNpmrcFile_silent unregistered(2)])
  ultimately show ?thesis using unregistered(3,4)
    by (simp add: released_append released_start_events guard_list_def)
next
  case (registered h evs2 s2 evs3)
  from plainD[OF plain_createNpmrcFile registered(2)]
  have d2: "disposables s2 = [VerdaccioHandle (path_resolve E (verdaccioStorage cfg))]" by simp
  from plainD[OF plain_later_steps registered(3)] d2
  have d3: "disposables s' = [VerdaccioHandle (path_resolve E (verdaccioStorage cfg)), h]"
    and nb: "out \<noteq> Blocked" by simp_all
  have r2: "released evs2 = []"
    by (rule released_nil) (auto dest: emitsD[OF createNpmrcFile_silent registered(2)])
  have r3: "released evs3 = []"
    by (rule released_nil) (auto dest: emitsD[OF later_steps_silent registered(3)])
  from createNpmrcFile_handle[OF registered(2)] have "\<And>d. h \<noteq> VerdaccioHandle d" .
  then have "guard_list (path_resolve E (verdaccioStorage cfg)) (disposables s')"
    unfolding d3 by (cases h) (auto simp: guard_list_def)
  with r2 r3 nb registered(4) show ?thesis
    by (simp add: released_append released_start_events)
qed

lemma io_finally_cases:
  assumes "io_finally m c s = (out, evs, s')"
  obtains (blk) "m s = (Blocked, evs, s')" "out = Blocked"
  | (fin) o1 evs1 s1 o2 evs2 where "m s = (o1, evs1, s1)" "o1 \<noteq> Blocked" "c s1 = (o2, evs2, s')"
      "evs = evs1 @ evs2" "out = (case o2 of Returned _ \<Rightarrow> o1 | Threw e \<Rightarrow> Threw e | Blocked \<Rightarrow> Blocked)"
  using assms unfolding io_finally_def
  by (auto split: prod.splits outcome.splits)

lemma execute_guard:
  assumes "execute E cfg f = (out, evs, s')"
  shows "prefix (released evs) (disposables s') \<and>
     guard_list (path_resolve E (verdaccioStorage cfg)) (disposables s') \<and>
     (out = Blocked \<longrightarrow> disposables s' = [])"
proof -
  from assms
  have "io_finally (pipeline E cfg) (cleanup E) \<lparr>files = f, disposables = []\<rparr> = (out, evs, s')"
    by (simp add: execute_def)
  then show ?thesis
  proof (cases rule: io_finally_cases)
    case blk
    from pipeline_guard[OF blk(1)] blk(2) show ?thesis by (auto simp: guard_list_def)
  next
    case (fin o1 evs1 s1 o2 evs2)
    from pipeline_guard[OF fin(1)] have r1: "released evs1 = []"
      and g: "guard_list (path_resolve E (verdaccioStorage cfg)) (disposables s1)" by simp_all
    from plainD[OF plain_cleanup fin(3)] have o2: "o2 \<noteq> Blocked" and d: "disposables s' = disposables s1"
      by simp_all
    from fin(2,5) o2 have "out \<noteq> Blocked" by (cases o2) simp_all
    with cleanup_released[OF fin(3)] r1 g d fin(4) show ?thesis
      by (simp add: released_append)
  qed
qed

lemma script_cases:
  assumes "script E cfg f = (out, evs, s')"
  obtains (blk) "execute E cfg f = (Blocked, evs, s')" "out = Blocked"
  | (settled) evs1 s1 o2 evs2 where "execute E cfg f = (out, evs1, s1)" "out \<noteq> Blocked"
      "deliver E (sigints_after E) s1 = (o2, evs2, s')" "evs = evs1 @ evs2"
  using assms unfolding script_def
  by (auto split: prod.splits outcome.splits)

subsection \<open>Release of the registered handles\<close>

text \<open>
  Claim C1. The claim says that in every run \<^verbatim>\<open>dispose\<close> is called on every registered
  handle, in the order of registration. The \<^verbatim>\<open>finally\<close> block and the SIGINT listener
  are there to do this, but \<open>cleanup\<close> is a plain \<^verbatim>\<open>forEach\<close>: an exception of one
  \<^verbatim>\<open>dispose\<close> ends the loop. When the removal of the registry's storage throws, the
  handle of the credential file, registered after it, is never disposed: in the sample
  run with a busy storage directory every step returns, the registry's handle is the
  only one released, the run ends with the exception of the removal, and the credential
  file keeps the token instead of its original content.
\<close>

theorem throwing_dispose_skips_later_handles:
  "disposables (snd (snd (script busy_storage_env sample_config busy_storage_files)))
     = [VerdaccioHandle ''/w/verdaccio-storage'', NpmrcRestore ''secret'']
   \<and> released (fst (snd (script busy_storage_env sample_config busy_storage_files)))
     = [VerdaccioHandle ''/w/verdaccio-storage'']
   \<and> fst (script busy_storage_env sample_config busy_storage_files)
     = Threw (EBUSY ''/w/verdaccio-storage'')
   \<and> fst (pipeline busy_storage_env sample_config \<lparr>files = busy_storage_files, disposables = []\<rparr>)
     = Returned ()
   \<and> files (snd (snd (script busy_storage_env sample_config busy_storage_files))) ''.npmrc''
     = Some (File (npmrc_token ''http://localhost:4873''))"
  by (simp add: run_defs sample_defs)

subsection \<open>The process executor\<close>

text \<open>
  Claim C3. \<open>executeProcess\<close> throws exactly when the child was ended by a signal or
  could not be launched: \<open>Aborted\<close> for a signal, the launch error otherwise. A child
  with neither returns normally, whatever its exit status.
\<close>

theorem executeProcess_throws_on_signal_or_launch_error:
  "let p = fst (spawn_sync E command args target (files s));
       out = fst (executeProcess E command args target dbg s)
   in ((\<exists>e. out = Threw e) \<longleftrightarrow> signalled p \<or> perror p \<noteq> None) \<and>
      (signalled p \<longrightarrow> out = Threw Aborted) \<and>
      (\<not> signalled p \<longrightarrow> (\<forall>e. perror p = Some e \<longrightarrow> out = Threw e)) \<and>
      (\<not> signalled p \<and> perror p = None \<longrightarrow> out = Returned ())"
  by (cases "spawn_sync E command args target (files s)")
     (auto simp: Let_def executeProcess_def spawnSync_def io_bind_def io_throw_def io_return_def
        split: option.splits)

theorem executeProcess_throws_on_signal_or_launch_error_witness:
  "status (fst (spawn_sync status1_env ''yarn'' [''install''] ''../target/'' sample_files)) = Some 1
   \<and> fst (executeProcess status1_env ''yarn'' [''install''] ''../target/'' False
            \<lparr>files = sample_files, disposables = []\<rparr>) = Returned ()
   \<and> fst (executeProcess killed_env ''yarn'' [''publish''] ''/w/a/p1'' False
            \<lparr>files = sample_files, disposables = []\<rparr>) = Threw Aborted"
proof -
  have a: "fst (spawn_sync status1_env ''yarn'' [''install''] ''../target/'' sample_files) = proc_status1"
    by (simp add: sample_defs)
  have b: "fst (spawn_sync killed_env ''yarn'' [''publish''] ''/w/a/p1'' sample_files) = proc_killed"
    by (simp add: sample_defs)
  have c: "\<not> signalled proc_status1 \<and> perror proc_status1 = None \<and> status proc_status1 = Some 1
     \<and> signalled proc_killed"
    by (simp add: signalled_def proc_status1_def proc_killed_def)
  from executeProcess_throws_on_signal_or_launch_error
         [of status1_env "''yarn''" "[''install'']" "''../target/''" "\<lparr>files = sample_files, disposables = []\<rparr>" False]
       executeProcess_throws_on_signal_or_launch_error
         [of killed_env "''yarn''" "[''publish'']" "''/w/a/p1''" "\<lparr>files = sample_files, disposables = []\<rparr>" False]
       a b c
  show ?thesis by (simp add: Let_def)
qed

subsection \<open>The arguments of the registry\<close>

text \<open>
  Claim C9. The argument list of the registry is meant to hold \<^verbatim>\<open>--config <path>\<close> and
  \<^verbatim>\<open>--listen <port>\<close> and to leave a falsy option out. Splitting the joined string at
  every blank leaves an empty argument in the place of a falsy option: with an empty
  config path the list is the empty string followed by \<^verbatim>\<open>--listen 4873\<close>, with port 0 it
  ends with the empty string, and with both it is two empty strings.
\<close>

theorem startVerdaccio_passes_empty_arguments:
  "startVerdaccio_args [] 4873 = [[], ''--listen'', ''4873'']
   \<and> startVerdaccio_args ''configs/verdaccio.config.yaml'' 0 = [''--config'', ''configs/verdaccio.config.yaml'', []]
   \<and> startVerdaccio_args [] 0 = [[], []]
   \<and> fst (snd (startVerdaccio sample_env [] 4873 ''verdaccio-storage'' False
                 \<lparr>files = sample_files, disposables = []\<rparr>))
      = [Spawn ''verdaccio'' [[], ''--listen'', ''4873''] False ''/w/verdaccio-storage'', WaitPort 4873]"
  by (simp add: run_defs sample_defs)

subsection \<open>Runs before and after the registrations\<close>

lemma guard_list_distinct: "guard_list dir ds \<Longrightarrow> distinct ds"
  by (auto simp: guard_list_def split: list.splits disposable.splits)




lemma distinct_count_at_most_one: "distinct xs \<Longrightarrow> count_list xs x \<le> 1"
  by (induction xs) (auto simp: count_list_0_iff)

subsection \<open>How often a handle is released\<close>

text \<open>
  Claim C8, as amended. The claim says that no handle is released more than once in any
  run, interrupts included. \<open>cleanup\<close> has no guard against a second call: it runs in the
  \<^verbatim>\<open>finally\<close> block and again in every run of the SIGINT listener. What holds: in a run
  where no interrupt is handled after \<open>execute\<close> has settled (interrupts handled during
  the port wait are allowed, the list is still empty then), no handle is released more
  than once; the handles released are the first of the registered ones, in their order.
\<close>

theorem release_at_most_once_without_late_interrupt:
  "sigints_after E = 0 \<Longrightarrow>
   (case script E cfg f of
      (out, evs, s') \<Rightarrow>
        distinct (released evs) \<and> (\<forall>d. count_list (released evs) d \<le> 1) \<and>
        prefix (released evs) (disposables s'))"
proof -
  assume late: "sigints_after E = 0"
  obtain out evs s' where run: "script E cfg f = (out, evs, s')" by (cases "script E cfg f") auto
  have p: "prefix (released evs) (disposables s') \<and> distinct (disposables s')"
    using run
  proof (cases rule: script_cases)
    case blk
    from execute_guard[OF blk(1)] show ?thesis by (auto dest: guard_list_distinct)
  next
    case (settled evs1 s1 o2 evs2)
    from settled(3) late have "evs2 = [] \<and> s' = s1" by (simp add: io_return_def)
    with execute_guard[OF settled(1)] settled(4) show ?thesis
      by (auto dest: guard_list_distinct)
  qed
  then have d: "distinct (released evs)" by (auto elim!: prefixE)
  then have "\<forall>d. count_list (released evs) d \<le> 1" by (blast intro: distinct_count_at_most_one)
  with p d run show ?thesis by simp
qed

theorem release_at_most_once_without_late_interrupt_witness:
  "sigints_after sample_env = 0 \<and> sigints_during_wait sample_env = 1
   \<and> distinct (released (fst (snd (script sample_env sample_config sample_files))))
   \<and> count_list (released (fst (snd (script sample_env sample_config sample_files))))
        (NpmrcRestore ''secret'') \<le> 1
   \<and> disposables (snd (snd (script sample_env sample_config sample_files)))
      = [VerdaccioHandle ''/w/verdaccio-storage'', NpmrcRestore ''secret'']
   \<and> prefix (released (fst (snd (script sample_env sample_config sample_files))))
        [VerdaccioHandle ''/w/verdaccio-storage'', NpmrcRestore ''secret'']"
proof -
  have a: "sigints_after sample_env = 0 \<and> sigints_during_wait sample_env = 1"
    by (simp add: sample_defs)
  have d: "disposables (snd (snd (script sample_env sample_config sample_files)))
      = [VerdaccioHandle ''/w/verdaccio-storage'', NpmrcRestore ''secret'']"
    by (simp add: run_defs sample_defs)
  from a release_at_most_once_without_late_interrupt[of sample_env sample_config sample_files] d
  show ?thesis by (simp add: split_def)
qed

text \<open>
  The claim as stated fails: the sample run with one interrupt handled after the last
  step returns, and both handles are released twice.
\<close>

theorem release_twice_after_late_interrupt:
  "fst (script late_sigint_env sample_config sample_files) = Returned ()
   \<and> released (fst (snd (script late_sigint_env sample_config sample_files)))
      = [VerdaccioHandle ''/w/verdaccio-storage'', NpmrcRestore ''secret'',
         VerdaccioHandle ''/w/verdaccio-storage'', NpmrcRestore ''secret'']
   \<and> \<not> distinct (released (fst (snd (script late_sigint_env sample_config sample_files))))"
  by (simp add: run_defs sample_defs)

subsection \<open>The port wait and the publish step\<close>




subsection \<open>Events of the whole run\<close>

lemma emits_pipeline:
  assumes "\<And>e. is_cleanup_event e \<Longrightarrow> P e" and "\<forall>e \<in> set (start_events E cfg). P e"
    and "P (FsExists ''.npmrc'')" and "P (FsRead ''.npmrc'')" and "emits P (later_steps E cfg)"
  shows "emits P (pipeline E cfg)"
proof -
  have c: "\<And>e. is_cleanup_event e \<Longrightarrow> P e" by fact
  have w: "P (WaitPort (verdaccioPort cfg))" using assms(2) by (simp add: start_events_def)
  have sp: "P (Spawn ''verdaccio'' (startVerdaccio_args (verdaccioConfig cfg) (verdaccioPort cfg))
          (debug cfg) (path_resolve E (verdaccioStorage cfg)))"
    using assms(2) by (simp add: start_events_def)
  have wr: "\<And>c. P (FsWrite ''.npmrc'' c)" by (rule assms(1)) (simp add: is_cleanup_event_def)
  show ?thesis
    unfolding pipeline_def
    by (intro emits_bind emits_then emits_push emits_startVerdaccio emits_createNpmrcFile
          c w sp wr assms(3,4,5))
qed

lemma script_run:
  assumes "script E cfg f = (out, evs, s')"
  obtains o1 evs1 s1 evs2 where "pipeline E cfg \<lparr>files = f, disposables = []\<rparr> = (o1, evs1, s1)"
    "evs = evs1 @ evs2" "\<forall>e \<in> set evs2. is_cleanup_event e"
    "out = Returned () \<longrightarrow> o1 = Returned ()" "(\<exists>x. o1 = Threw x) \<longrightarrow> (\<exists>x. out = Threw x)"
  using assms
proof (cases rule: script_cases)
  case blk
  then have "io_finally (pipeline E cfg) (cleanup E) \<lparr>files = f, disposables = []\<rparr> = (Blocked, evs, s')"
    by (simp add: execute_def)
  then show ?thesis
  proof (cases rule: io_finally_cases)
    case blk
    with \<open>out = Blocked\<close> show ?thesis by (intro that[of Blocked evs s' "[]"]) simp_all
  next
    case (fin o1 evs1 s1 o2 evs2)
    from plainD[OF plain_cleanup fin(3)] fin(2,5) show ?thesis by (cases o2) simp_all
  qed
next
  case (settled evs1 s1 o2 evs2)
  then have "io_finally (pipeline E cfg) (cleanup E) \<lparr>files = f, disposables = []\<rparr> = (out, evs1, s1)"
    by (simp add: execute_def)
  then show ?thesis
  proof (cases rule: io_finally_cases)
    case blk
    with settled(2) show ?thesis by simp
  next
    case (fin o1 evs1' s1' o3 evs3)
    have c3: "\<forall>e \<in> set evs3. is_cleanup_event e"
      using emitsD[OF emits_cleanup fin(3), of is_cleanup_event] by blast
    have c2: "\<forall>e \<in> set evs2. is_cleanup_event e"
      using emitsD[OF emits_deliver settled(3), of is_cleanup_event] by blast
    show ?thesis
    proof (rule that[OF fin(1), of "evs3 @ evs2"])
      show "evs = evs1' @ evs3 @ evs2" using settled(4) fin(4) by simp
      show "\<forall>e \<in> set (evs3 @ evs2). is_cleanup_event e" using c2 c3 by auto
      show "out = Returned () \<longrightarrow> o1 = Returned ()" using fin(5) by (cases o3) auto
      show "(\<exists>x. o1 = Threw x) \<longrightarrow> (\<exists>x. out = Threw x)" using fin(5) fin(2)
        plainD[OF plain_cleanup fin(3)] by (cases o3) auto
    qed
  qed
qed

lemma script_emits:
  assumes "emits P (pipeline E cfg)" and "\<And>e. is_cleanup_event e \<Longrightarrow> P e"
    and "script E cfg f = (out, evs, s')" and "e \<in> set evs"
  shows "P e"
  using assms(3)
proof (cases rule: script_run)
  case (1 o1 evs1 s1 evs2)
  with assms(4) have "e \<in> set evs1 \<or> e \<in> set evs2" by simp
  then show ?thesis
  proof
    assume "e \<in> set evs1"
    with assms(1) 1(1) show ?thesis by (rule emitsD)
  next
    assume "e \<in> set evs2"
    with 1(3) assms(2) show ?thesis by blast
  qed
qed

subsection \<open>Failed child processes\<close>
















subsection \<open>The target directory\<close>

lemma copyApp_events:
  assumes "copyApp E a t s = (Returned (), evs, s')"
  shows "evs = [FsRemove t, FsCopy a t, FsCopyFile ''yarn.lock'' (t @ ''yarn.lock'')]"
  using assms
  by (auto simp: copyApp_def removeSync_def copySync_def copyFileSync_def io_then_def io_bind_def
        emit_def set_files_def io_throw_def io_return_def read_node_def write_node_def
      split: if_splits option.splits node.splits)

lemma executeProcess_events:
  assumes "executeProcess E c a d i s = (Returned (), evs, s')"
  shows "\<exists>p. evs = [Exec c a d i p]"
  using assms
  by (auto simp: executeProcess_def spawnSync_def io_bind_def io_throw_def io_return_def
      split: prod.splits if_splits option.splits)

lemma adaptApp_returned:
  assumes "adaptApp E t s = (Returned (), evs, s')"
  shows "\<exists>rc rootj r.
     files s ''package.json'' = Some (File rc) \<and> json_parse E rc = Inr rootj \<and>
     get_resolutions rootj = Inr r \<and>
     (if truthy r
      then \<exists>j. evs = [FsReadJson ''package.json'', FsReadJson (t @ ''package.json''),
                       FsWriteJson (t @ ''package.json'') j] \<and>
               files s' (t @ ''package.json'') = Some (File (json_stringify E j))
      else evs = [FsReadJson ''package.json''] \<and> s' = s)"
  using assms
  by (auto simp: adaptApp_def readJSONSync_def read_node_def lift_def io_bind_def io_then_def
        emit_def io_return_def io_throw_def writeJSONSync_def write_node_def set_files_def
      split: option.splits node.splits sum.splits if_splits)

lemma later_steps_returned:
  assumes "later_steps E cfg s = (Returned (), evs, s')"
  shows "\<exists>pub s2 evs_a sa p1 p2 p3.
     adaptApp E (target_of cfg) s2 = (Returned (), evs_a, sa) \<and>
     evs = pub @
       [FsRemove (target_of cfg), FsCopy (app cfg) (target_of cfg),
        FsCopyFile ''yarn.lock'' (target_of cfg @ ''yarn.lock'')] @ evs_a @
       [Exec ''yarn'' [''install'', ''--registry'', registry_of cfg, ''--network-timeout'', ''100000'']
          (target_of cfg) (debug cfg) p1,
        Exec ''yarn'' [''autoclean'', ''--init''] (target_of cfg) (debug cfg) p2,
        Exec ''yarn'' [''autoclean'', ''--force''] (target_of cfg) (debug cfg) p3]"
proof -
  from assms have "io_then (publishExtensions E (registry_of cfg) (includeExtensions cfg)
        (excludeExtensions cfg) (debug cfg))
      (io_then (copyApp E (app cfg) (target_of cfg))
        (io_then (adaptApp E (target_of cfg))
          (io_then (buildApp E (target_of cfg) (registry_of cfg) (debug cfg))
                   (minifyApp E (target_of cfg) (debug cfg))))) s = (Returned (), evs, s')"
    by (simp add: later_steps_def Let_def)
  then show ?thesis
  proof (cases rule: io_then_cases)
    case pub: (ret e1 s1 r1)
    from pub(2) show ?thesis
    proof (cases rule: io_then_cases)
      case cp: (ret e2 s2 r2)
      from cp(2) show ?thesis
      proof (cases rule: io_then_cases)
        case ad: (ret e3 s3 r3)
        from ad(2) show ?thesis
        proof (cases rule: io_then_cases)
          case bd: (ret e4 s4 r4)
          from bd(1) obtain p1 where p1: "e4 = [Exec ''yarn''
              [''install'', ''--registry'', registry_of cfg, ''--network-timeout'', ''100000'']
              (target_of cfg) (debug cfg) p1]"
            unfolding buildApp_def by (auto dest: executeProcess_events)
          from bd(2) have "io_then
              (executeProcess E ''yarn'' [''autoclean'', ''--init''] (target_of cfg) (debug cfg))
              (executeProcess E ''yarn'' [''autoclean'', ''--force''] (target_of cfg) (debug cfg)) s4
              = (Returned (), r4, s')"
            by (simp add: minifyApp_def)
          then obtain p2 p3 where p23: "r4 =
              [Exec ''yarn'' [''autoclean'', ''--init''] (target_of cfg) (debug cfg) p2,
               Exec ''yarn'' [''autoclean'', ''--force''] (target_of cfg) (debug cfg) p3]"
            by (cases rule: io_then_cases) (auto dest!: executeProcess_events)
          have "evs = e1 @
              [FsRemove (target_of cfg), FsCopy (app cfg) (target_of cfg),
               FsCopyFile ''yarn.lock'' (target_of cfg @ ''yarn.lock'')] @ e3 @
              [Exec ''yarn'' [''install'', ''--registry'', registry_of cfg, ''--network-timeout'', ''100000'']
                 (target_of cfg) (debug cfg) p1,
               Exec ''yarn'' [''autoclean'', ''--init''] (target_of cfg) (debug cfg) p2,
               Exec ''yarn'' [''autoclean'', ''--force''] (target_of cfg) (debug cfg) p3]"
            using pub(3) cp(3) ad(3) bd(3) copyApp_events[OF cp(1)] p1 p23 by simp
          with ad(1) show ?thesis by blast
        qed simp_all
      qed simp_all
    qed simp_all
  qed simp_all
qed

lemma script_returned_later_steps:
  assumes "script E cfg f = (Returned (), evs, s')"
  obtains pre s2 evs3 s3 post where "later_steps E cfg s2 = (Returned (), evs3, s3)"
    "evs = pre @ evs3 @ post"
  using assms
proof (cases rule: script_run)
  case (1 o1 evs1 s1 evs2)
  then have p: "pipeline E cfg \<lparr>files = f, disposables = []\<rparr> = (Returned (), evs1, s1)" by simp
  then show ?thesis
  proof (cases rule: pipeline_cases)
    case (registered h evs2' s2 evs3)
    show ?thesis
      by (rule that[OF registered(3), of "start_events E cfg @ evs2'" evs2])
         (simp add: 1(2) registered(4))
  qed simp_all
qed

lemma emits_pipeline_target_paths: "emits (target_paths (target_of cfg)) (pipeline E cfg)"
  by (intro emits_pipeline emits_later_steps)
     (auto simp: target_paths_def is_cleanup_event_def start_events_def split: event.splits)

text \<open>
  Claim C10. The output argument is used with one slash appended when it does not end
  in a slash, and unchanged when it does. The paths of the lockfile copy and of the
  manifest are that target with the file name appended. In every run, every copy of a
  single file goes from \<^verbatim>\<open>yarn.lock\<close> to the target followed by \<^verbatim>\<open>yarn.lock\<close>, every JSON
  file read is the root manifest or the target followed by \<^verbatim>\<open>package.json\<close>, and every
  JSON file written is the latter. A run that returns has, in this order: removed the
  target, copied the application to it, copied the lockfile to the target followed by
  \<^verbatim>\<open>yarn.lock\<close>, run \<open>adaptApp\<close> on the target, and run the install and the two autoclean
  commands in the target. That run of \<open>adaptApp\<close> has read the root manifest, and, when
  the root's resolutions are truthy, read the target followed by \<^verbatim>\<open>package.json\<close> and
  written the printed manifest to that same path; when they are not, it has done
  nothing else.
\<close>

theorem output_path_gets_one_trailing_slash:
  "(endsWith (output_arg cfg) ''/'' \<longrightarrow> target_of cfg = output_arg cfg) \<and>
   (\<not> endsWith (output_arg cfg) ''/'' \<longrightarrow> target_of cfg = output_arg cfg @ ''/'') \<and>
   endsWith (target_of cfg) ''/'' \<and>
   (case script E cfg f of
      (out, evs, s') \<Rightarrow>
        (\<forall>e \<in> set evs. target_paths (target_of cfg) e) \<and>
        (out = Returned () \<longrightarrow>
          (\<exists>pre s evs_a sa p1 p2 p3 post rc rootj r.
             evs = pre @
               [FsRemove (target_of cfg), FsCopy (app cfg) (target_of cfg),
                FsCopyFile ''yarn.lock'' (target_of cfg @ ''yarn.lock'')] @ evs_a @
               [Exec ''yarn''
                  [''install'', ''--registry'', registry_of cfg, ''--network-timeout'', ''100000'']
                  (target_of cfg) (debug cfg) p1,
                Exec ''yarn'' [''autoclean'', ''--init''] (target_of cfg) (debug cfg) p2,
                Exec ''yarn'' [''autoclean'', ''--force''] (target_of cfg) (debug cfg) p3] @ post \<and>
             adaptApp E (target_of cfg) s = (Returned (), evs_a, sa) \<and>
             files s ''package.json'' = Some (File rc) \<and> json_parse E rc = Inr rootj \<and>
             get_resolutions rootj = Inr r \<and>
             (if truthy r
              then \<exists>j. evs_a = [FsReadJson ''package.json'',
                                 FsReadJson (target_of cfg @ ''package.json''),
                                 FsWriteJson (target_of cfg @ ''package.json'') j] \<and>
                       files sa (target_of cfg @ ''package.json'')
                         = Some (File (json_stringify E j))
              else evs_a = [FsReadJson ''package.json''] \<and> sa = s))))"
proof -
  obtain out evs s' where run: "script E cfg f = (out, evs, s')" by (cases "script E cfg f") auto
  have safe: "\<forall>e \<in> set evs. target_paths (target_of cfg) e"
  proof
    fix e assume "e \<in> set evs"
    with emits_pipeline_target_paths _ run show "target_paths (target_of cfg) e"
      by (rule script_emits) (auto simp: target_paths_def is_cleanup_event_def split: event.splits)
  qed
  have live: "out = Returned () \<longrightarrow>
          (\<exists>pre s evs_a sa p1 p2 p3 post rc rootj r.
             evs = pre @
               [FsRemove (target_of cfg), FsCopy (app cfg) (target_of cfg),
                FsCopyFile ''yarn.lock'' (target_of cfg @ ''yarn.lock'')] @ evs_a @
               [Exec ''yarn''
                  [''install'', ''--registry'', registry_of cfg, ''--network-timeout'', ''100000'']
                  (target_of cfg) (debug cfg) p1,
                Exec ''yarn'' [''autoclean'', ''--init''] (target_of cfg) (debug cfg) p2,
                Exec ''yarn'' [''autoclean'', ''--force''] (target_of cfg) (debug cfg) p3] @ post \<and>
             adaptApp E (target_of cfg) s = (Returned (), evs_a, sa) \<and>
             files s ''package.json'' = Some (File rc) \<and> json_parse E rc = Inr rootj \<and>
             get_resolutions rootj = Inr r \<and>
             (if truthy r
              then \<exists>j. evs_a = [FsReadJson ''package.json'',
                                 FsReadJson (target_of cfg @ ''package.json''),
                                 FsWriteJson (target_of cfg @ ''package.json'') j] \<and>
                       files sa (target_of cfg @ ''package.json'')
                         = Some (File (json_stringify E j))
              else evs_a = [FsReadJson ''package.json''] \<and> sa = s))"
  proof
    assume "out = Returned ()"
    with run have "script E cfg f = (Returned (), evs, s')" by simp
    then obtain pre s2 evs3 s3 post where l: "later_steps E cfg s2 = (Returned (), evs3, s3)"
      and e: "evs = pre @ evs3 @ post" by (rule script_returned_later_steps)
    from later_steps_returned[OF l] obtain pub s evs_a sa p1 p2 p3 where
      a: "adaptApp E (target_of cfg) s = (Returned (), evs_a, sa)" and
      e3: "evs3 = pub @
       [FsRemove (target_of cfg), FsCopy (app cfg) (target_of cfg),
        FsCopyFile ''yarn.lock'' (target_of cfg @ ''yarn.lock'')] @ evs_a @
       [Exec ''yarn'' [''install'', ''--registry'', registry_of cfg, ''--network-timeout'', ''100000'']
          (target_of cfg) (debug cfg) p1,
        Exec ''yarn'' [''autoclean'', ''--init''] (target_of cfg) (debug cfg) p2,
        Exec ''yarn'' [''autoclean'', ''--force''] (target_of cfg) (debug cfg) p3]"
      by blast
    from adaptApp_returned[OF a] obtain rc rootj r where
      m: "files s ''package.json'' = Some (File rc)" "json_parse E rc = Inr rootj"
        "get_resolutions rootj = Inr r"
        "if truthy r
         then \<exists>j. evs_a = [FsReadJson ''package.json'',
                            FsReadJson (target_of cfg @ ''package.json''),
                            FsWriteJson (target_of cfg @ ''package.json'') j] \<and>
                  files sa (target_of cfg @ ''package.json'') = Some (File (json_stringify E j))
         else evs_a = [FsReadJson ''package.json''] \<and> sa = s"
      by blast
    have "evs = (pre @ pub) @
       [FsRemove (target_of cfg), FsCopy (app cfg) (target_of cfg),
        FsCopyFile ''yarn.lock'' (target_of cfg @ ''yarn.lock'')] @ evs_a @
       [Exec ''yarn'' [''install'', ''--registry'', registry_of cfg, ''--network-timeout'', ''100000'']
          (target_of cfg) (debug cfg) p1,
        Exec ''yarn'' [''autoclean'', ''--init''] (target_of cfg) (debug cfg) p2,
        Exec ''yarn'' [''autoclean'', ''--force''] (target_of cfg) (debug cfg) p3] @ post"
      using e e3 by simp
    with a m show "\<exists>pre s evs_a sa p1 p2 p3 post rc rootj r.
             evs = pre @
               [FsRemove (target_of cfg), FsCopy (app cfg) (target_of cfg),
                FsCopyFile ''yarn.lock'' (target_of cfg @ ''yarn.lock'')] @ evs_a @
               [Exec ''yarn''
                  [''install'', ''--registry'', registry_of cfg, ''--network-timeout'', ''100000'']
                  (target_of cfg) (debug cfg) p1,
                Exec ''yarn'' [''autoclean'', ''--init''] (target_of cfg) (debug cfg) p2,
                Exec ''yarn'' [''autoclean'', ''--force''] (target_of cfg) (debug cfg) p3] @ post \<and>
             adaptApp E (target_of cfg) s = (Returned (), evs_a, sa) \<and>
             files s ''package.json'' = Some (File rc) \<and> json_parse E rc = Inr rootj \<and>
             get_resolutions rootj = Inr r \<and>
             (if truthy r
              then \<exists>j. evs_a = [FsReadJson ''package.json'',
                                 FsReadJson (target_of cfg @ ''package.json''),
                                 FsWriteJson (target_of cfg @ ''package.json'') j] \<and>
                       files sa (target_of cfg @ ''package.json'')
                         = Some (File (json_stringify E j))
              else evs_a = [FsReadJson ''package.json''] \<and> sa = s)"
      by blast
  qed
  have "endsWith (target_of cfg) ''/''"
    by (simp add: target_of_def endsWith_def suffix_def)
  with safe live run show ?thesis by (simp add: target_of_def)
qed

theorem output_path_gets_one_trailing_slash_witness:
  "\<not> endsWith (output_arg sample_config) ''/''
   \<and> target_of sample_config = ''../target/''
   \<and> endsWith (output_arg (sample_config\<lparr>output_arg := ''out/''\<rparr>)) ''/''
   \<and> target_of (sample_config\<lparr>output_arg := ''out/''\<rparr>) = ''out/''
   \<and> list_all (target_paths ''../target/'') (fst (snd (script sample_env sample_config sample_files)))
   \<and> (\<exists>pre s evs_a sa p1 p2 p3 post rc rootj r.
         fst (snd (script sample_env sample_config sample_files)) = pre @
           [FsRemove ''../target/'', FsCopy ''applications/browser'' ''../target/'',
            FsCopyFile ''yarn.lock'' ''../target/yarn.lock''] @ evs_a @
           [Exec ''yarn''
              [''install'', ''--registry'', ''http://localhost:4873'', ''--network-timeout'', ''100000'']
              ''../target/'' False p1,
            Exec ''yarn'' [''autoclean'', ''--init''] ''../target/'' False p2,
            Exec ''yarn'' [''autoclean'', ''--force''] ''../target/'' False p3] @ post \<and>
         adaptApp sample_env ''../target/'' s = (Returned (), evs_a, sa) \<and>
         files s ''package.json'' = Some (File rc) \<and> json_parse sample_env rc = Inr rootj \<and>
         get_resolutions rootj = Inr r \<and>
         (if truthy r
          then \<exists>j. evs_a = [FsReadJson ''package.json'', FsReadJson ''../target/package.json'',
                             FsWriteJson ''../target/package.json'' j] \<and>
                   files sa ''../target/package.json'' = Some (File (json_stringify sample_env j))
          else evs_a = [FsReadJson ''package.json''] \<and> sa = s))
   \<and> FsWriteJson ''../target/package.json''
         (JObj [(''name'', JStr ''app''),
                (''resolutions'', JObj [(''x'', JStr ''1.0''), (''y'', JStr ''2.0'')])])
       \<in> set (fst (snd (script sample_env sample_config sample_files)))"
proof -
  have a: "output_arg sample_config = ''../target'' \<and> \<not> endsWith ''../target'' ''/''"
    by (simp add: sample_defs endsWith_def suffix_to_prefix)
  have b: "output_arg (sample_config\<lparr>output_arg := ''out/''\<rparr>) = ''out/'' \<and> endsWith ''out/'' ''/''"
    by (simp add: endsWith_def suffix_to_prefix)
  have c: "fst (script sample_env sample_config sample_files) = Returned ()"
    by (simp add: run_defs sample_defs)
  have d: "app sample_config = ''applications/browser'' \<and> debug sample_config = False \<and>
      registry_of sample_config = ''http://localhost:4873''"
    by (simp add: sample_defs registry_of_def show_int_def digit_char_def)
  have w: "FsWriteJson ''../target/package.json''
         (JObj [(''name'', JStr ''app''),
                (''resolutions'', JObj [(''x'', JStr ''1.0''), (''y'', JStr ''2.0'')])])
       \<in> set (fst (snd (script sample_env sample_config sample_files)))"
    by (simp add: run_defs sample_defs)
  from output_path_gets_one_trailing_slash[of sample_config sample_env sample_files] a
  have t: "target_of sample_config = ''../target/''" by simp
  from output_path_gets_one_trailing_slash[of "sample_config\<lparr>output_arg := ''out/''\<rparr>" sample_env sample_files] b
  have t2: "target_of (sample_config\<lparr>output_arg := ''out/''\<rparr>) = ''out/''" by simp
  from output_path_gets_one_trailing_slash[of sample_config sample_env sample_files] c
  have "list_all (target_paths (target_of sample_config))
         (fst (snd (script sample_env sample_config sample_files)))
    \<and> (\<exists>pre s evs_a sa p1 p2 p3 post rc rootj r.
         fst (snd (script sample_env sample_config sample_files)) = pre @
           [FsRemove (target_of sample_config), FsCopy (app sample_config) (target_of sample_config),
            FsCopyFile ''yarn.lock'' (target_of sample_config @ ''yarn.lock'')] @ evs_a @
           [Exec ''yarn''
              [''install'', ''--registry'', registry_of sample_config, ''--network-timeout'', ''100000'']
              (target_of sample_config) (debug sample_config) p1,
            Exec ''yarn'' [''autoclean'', ''--init''] (target_of sample_config) (debug sample_config) p2,
            Exec ''yarn'' [''autoclean'', ''--force''] (target_of sample_config) (debug sample_config) p3]
           @ post \<and>
         adaptApp sample_env (target_of sample_config) s = (Returned (), evs_a, sa) \<and>
         files s ''package.json'' = Some (File rc) \<and> json_parse sample_env rc = Inr rootj \<and>
         get_resolutions rootj = Inr r \<and>
         (if truthy r
          then \<exists>j. evs_a = [FsReadJson ''package.json'',
                             FsReadJson (target_of sample_config @ ''package.json''),
                             FsWriteJson (target_of sample_config @ ''package.json'') j] \<and>
                   files sa (target_of sample_config @ ''package.json'')
                     = Some (File (json_stringify sample_env j))
          else evs_a = [FsReadJson ''package.json''] \<and> sa = s))"
    by (simp add: split_def list_all_iff)
  then have "list_all (target_paths ''../target/'')
         (fst (snd (script sample_env sample_config sample_files)))
    \<and> (\<exists>pre s evs_a sa p1 p2 p3 post rc rootj r.
         fst (snd (script sample_env sample_config sample_files)) = pre @
           [FsRemove ''../target/'', FsCopy ''applications/browser'' ''../target/'',
            FsCopyFile ''yarn.lock'' ''../target/yarn.lock''] @ evs_a @
           [Exec ''yarn''
              [''install'', ''--registry'', ''http://localhost:4873'', ''--network-timeout'', ''100000'']
              ''../target/'' False p1,
            Exec ''yarn'' [''autoclean'', ''--init''] ''../target/'' False p2,
            Exec ''yarn'' [''autoclean'', ''--force''] ''../target/'' False p3] @ post \<and>
         adaptApp sample_env ''../target/'' s = (Returned (), evs_a, sa) \<and>
         files s ''package.json'' = Some (File rc) \<and> json_parse sample_env rc = Inr rootj \<and>
         get_resolutions rootj = Inr r \<and>
         (if truthy r
          then \<exists>j. evs_a = [FsReadJson ''package.json'', FsReadJson ''../target/package.json'',
                             FsWriteJson ''../target/package.json'' j] \<and>
                   files sa ''../target/package.json'' = Some (File (json_stringify sample_env j))
          else evs_a = [FsReadJson ''package.json''] \<and> sa = s))"
    by (simp add: t d cong: if_cong split del: if_split)
  then have m1: "list_all (target_paths ''../target/'')
         (fst (snd (script sample_env sample_config sample_files)))"
    and m2: "\<exists>pre s evs_a sa p1 p2 p3 post rc rootj r.
         fst (snd (script sample_env sample_config sample_files)) = pre @
           [FsRemove ''../target/'', FsCopy ''applications/browser'' ''../target/'',
            FsCopyFile ''yarn.lock'' ''../target/yarn.lock''] @ evs_a @
           [Exec ''yarn''
              [''install'', ''--registry'', ''http://localhost:4873'', ''--network-timeout'', ''100000'']
              ''../target/'' False p1,
            Exec ''yarn'' [''autoclean'', ''--init''] ''../target/'' False p2,
            Exec ''yarn'' [''autoclean'', ''--force''] ''../target/'' False p3] @ post \<and>
         adaptApp sample_env ''../target/'' s = (Returned (), evs_a, sa) \<and>
         files s ''package.json'' = Some (File rc) \<and> json_parse sample_env rc = Inr rootj \<and>
         get_resolutions rootj = Inr r \<and>
         (if truthy r
          then \<exists>j. evs_a = [FsReadJson ''package.json'', FsReadJson ''../target/package.json'',
                             FsWriteJson ''../target/package.json'' j] \<and>
                   files sa ''../target/package.json'' = Some (File (json_stringify sample_env j))
          else evs_a = [FsReadJson ''package.json''] \<and> sa = s)"
    by (rule conjunct1, rule conjunct2)
  from a have a1: "\<not> endsWith (output_arg sample_config) ''/''" by simp
  from b have b1: "endsWith (output_arg (sample_config\<lparr>output_arg := ''out/''\<rparr>)) ''/''" by simp
  show ?thesis by (intro conjI a1 t b1 t2 m1 m2 w)
qed

subsection \<open>The packages that are published\<close>

lemma unique_acc:
  "distinct acc \<Longrightarrow>
   distinct (foldl (\<lambda>acc x. if x \<in> set acc then acc else acc @ [x]) acc xs) \<and>
   set (foldl (\<lambda>acc x. if x \<in> set acc then acc else acc @ [x]) acc xs) = set acc \<union> set xs"
  by (induction xs arbitrary: acc) auto

lemma distinct_unique: "distinct (unique xs)"
  and set_unique: "set (unique xs) = set xs"
  using unique_acc[of "[]" xs] by (simp_all add: unique_def)

lemma published_append: "published (xs @ ys) = published xs @ published ys"
  by (induction xs rule: published.induct) simp_all

lemma publish_one_published:
  assumes "publish_one E r dbg d s = (out, evs, s')"
  shows "(out = Returned () \<longrightarrow> published evs = [d]) \<and> (published evs = [] \<or> published evs = [d])"
  using assms
  by (auto simp: publish_one_def require_package_version_def executeProcess_def spawnSync_def
        io_then_def io_bind_def emit_def lift_def io_throw_def io_return_def
      split: sum.splits prod.splits if_splits option.splits)

lemma forEach_published:
  assumes "forEach (publish_one E r dbg) ds s = (out, evs, s')"
  shows "prefix (published evs) ds \<and> (out = Returned () \<longrightarrow> published evs = ds)"
  using assms
proof (induction ds arbitrary: s out evs s')
  case Nil
  then show ?case by (simp add: io_return_def)
next
  case (Cons d ds)
  from Cons.prems have "io_then (publish_one E r dbg d) (forEach (publish_one E r dbg) ds) s = (out, evs, s')"
    by simp
  then show ?case
  proof (cases rule: io_then_cases)
    case (ret evs1 s1 evs2)
    from publish_one_published[OF ret(1)] have "published evs1 = [d]" by simp
    with Cons.IH[OF ret(2)] ret(3) show ?thesis by (simp add: published_append)
  next
    case (thr e)
    from publish_one_published[OF thr(1)] thr(2) show ?thesis by auto
  next
    case blk
    from publish_one_published[OF blk(1)] blk(2) show ?thesis by auto
  qed
qed

lemma glob_events:
  "forEach (\<lambda>p. emit (Glob p ign)) inc s = (Returned (), map (\<lambda>p. Glob p ign) inc, s)"
  by (induction inc) (simp_all add: io_return_def io_then_def io_bind_def emit_def)

lemma published_globs: "published (map (\<lambda>p. Glob p ign) inc) = []"
  by (induction inc) simp_all

lemma distinct_count_one: "distinct xs \<Longrightarrow> x \<in> set xs \<Longrightarrow> count_list xs x = 1"
  by (induction xs) (auto simp: count_list_0_iff)

text \<open>
  Claim C6. The directories the publish loop walks are the matches of all include
  patterns, each once: the list is free of duplicates and its elements are the union
  of the matches. The publish commands of the step are run in the directories of a
  prefix of that list, in order, and of the whole list when the step returns, so that
  every matched path is then published exactly once.
\<close>

theorem publish_set_is_duplicate_free_union:
  "let ps = uniquePaths E inc ign in
     distinct ps \<and> set ps = (\<Union>p \<in> set inc. set (glob_sync E p ign)) \<and>
     (case publishExtensions E registry inc ign dbg s of
        (out, evs, s') \<Rightarrow>
          prefix (published evs) ps \<and>
          (out = Returned () \<longrightarrow>
             published evs = ps \<and> (\<forall>p \<in> set ps. count_list (published evs) p = 1)))"
proof -
  let ?ps = "uniquePaths E inc ign"
  have d: "distinct ?ps" by (simp add: uniquePaths_def distinct_unique)
  have u: "set ?ps = (\<Union>p \<in> set inc. set (glob_sync E p ign))"
    by (simp add: uniquePaths_def set_unique)
  obtain out evs s' where run: "publishExtensions E registry inc ign dbg s = (out, evs, s')"
    by (cases "publishExtensions E registry inc ign dbg s") auto
  then obtain evs2 where l: "forEach (publish_one E registry dbg) ?ps s = (out, evs2, s')"
    and e: "evs = map (\<lambda>p. Glob p ign) inc @ evs2"
    by (auto simp: publishExtensions_def io_then_def io_bind_def glob_events split: prod.splits)
  from forEach_published[OF l] e
  have p: "prefix (published evs) ?ps" and r: "out = Returned () \<longrightarrow> published evs = ?ps"
    by (simp_all add: published_append published_globs)
  from r d have "out = Returned () \<longrightarrow> (\<forall>p \<in> set ?ps. count_list (published evs) p = 1)"
    by (auto simp: distinct_count_one)
  with d u p r run show ?thesis by (simp add: Let_def)
qed

theorem publish_set_is_duplicate_free_union_witness:
  "glob_sync sample_env ''a/*'' [] = [''/w/a/p1'', ''/w/a/p2'']
   \<and> glob_sync sample_env ''a/p1'' [] = [''/w/a/p1'']
   \<and> published (fst (snd (publishExtensions sample_env ''http://localhost:4873'' [''a/*'', ''a/p1''] []
                             False \<lparr>files = sample_files, disposables = []\<rparr>)))
      = [''/w/a/p1'', ''/w/a/p2'']
   \<and> count_list (published (fst (snd (publishExtensions sample_env ''http://localhost:4873''
                             [''a/*'', ''a/p1''] [] False \<lparr>files = sample_files, disposables = []\<rparr>))))
        ''/w/a/p1'' = 1"
proof -
  have a: "glob_sync sample_env ''a/*'' [] = [''/w/a/p1'', ''/w/a/p2'']
      \<and> glob_sync sample_env ''a/p1'' [] = [''/w/a/p1'']"
    by (simp add: sample_defs)
  have b: "uniquePaths sample_env [''a/*'', ''a/p1''] [] = [''/w/a/p1'', ''/w/a/p2'']"
    by (simp add: uniquePaths_def unique_def sample_defs)
  have c: "fst (publishExtensions sample_env ''http://localhost:4873'' [''a/*'', ''a/p1''] []
             False \<lparr>files = sample_files, disposables = []\<rparr>) = Returned ()"
    by (simp add: run_defs sample_defs)
  from publish_set_is_duplicate_free_union[of sample_env "[''a/*'', ''a/p1'']" "[]"
      "''http://localhost:4873''" False "\<lparr>files = sample_files, disposables = []\<rparr>"] a b c
  show ?thesis by (simp add: split_def Let_def)
qed

subsection \<open>The credential file\<close>

lemma createNpmrcFile_run:
  assumes "files s ''.npmrc'' \<noteq> Some Dir"
  shows "createNpmrcFile registry s =
    (Returned (case files s ''.npmrc'' of Some (File c) \<Rightarrow> NpmrcRestore c | _ \<Rightarrow> NpmrcRemove),
     (case files s ''.npmrc'' of
        Some (File c) \<Rightarrow> [FsExists ''.npmrc'', FsRead ''.npmrc'', FsWrite ''.npmrc'' (npmrc_token registry)]
      | _ \<Rightarrow> [FsExists ''.npmrc'', FsWrite ''.npmrc'' (npmrc_token registry)]),
     s\<lparr>files := (files s)(''.npmrc'' \<mapsto> File (npmrc_token registry))\<rparr>)"
  using assms
  by (auto simp: createNpmrcFile_def existsSync_def readFileSync_def writeFileSync_def read_node_def
        write_node_def io_bind_def io_then_def emit_def io_return_def io_throw_def set_files_def
      split: option.splits node.splits)

lemma dispose_restore:
  assumes "files s2 ''.npmrc'' \<noteq> Some Dir"
  shows "dispose E (NpmrcRestore c) s2 =
    (Returned (), [FsWrite ''.npmrc'' c], s2\<lparr>files := (files s2)(''.npmrc'' \<mapsto> File c)\<rparr>)"
  using assms
  by (auto simp: dispose_def writeFileSync_def write_node_def io_then_def io_bind_def emit_def
        io_throw_def set_files_def split: option.splits node.splits)

lemma dispose_remove:
  assumes "files s2 ''.npmrc'' \<noteq> Some Dir"
  shows "dispose E NpmrcRemove s2 =
    (Returned (), [FsRemove ''.npmrc''],
     s2\<lparr>files := (\<lambda>k. if under ''.npmrc'' k then None else files s2 k)\<rparr>)"
  using assms
  by (simp add: dispose_def removeSync_def io_then_def io_bind_def emit_def set_files_def
        strip_slash_def endsWith_def suffix_to_prefix)

lemma under_npmrc: "under ''.npmrc'' k \<longleftrightarrow> k = ''.npmrc'' \<or> prefix ''.npmrc/'' k"
  by (simp add: under_def strip_slash_def endsWith_def suffix_to_prefix)

text \<open>
  Claim C4. Where the credential file holds the bytes \<open>C\<close>, \<open>createNpmrcFile\<close> returns a
  handle that holds \<open>C\<close>, and disposing it leaves the file with exactly \<open>C\<close> and every
  other file as it was; where there is no file, the handle is the removing one, and
  disposing it leaves no file (and every path outside of it as it was). The choice is
  made when the handle is created: disposed in any later state, whatever the file is
  then, the handle gives the file the content it had at creation, or removes it. (A
  directory at the place of the file is left out: reading or writing it throws.)
\<close>

theorem credential_file_round_trip:
  "files s ''.npmrc'' \<noteq> Some Dir \<Longrightarrow>
   (case createNpmrcFile registry s of
      (out, evs, s1) \<Rightarrow>
        out = Returned (case files s ''.npmrc'' of Some (File c) \<Rightarrow> NpmrcRestore c | _ \<Rightarrow> NpmrcRemove) \<and>
        files s1 ''.npmrc'' = Some (File (npmrc_token registry)) \<and>
        (\<forall>h. out = Returned h \<longrightarrow>
           fst (dispose E h s1) = Returned () \<and>
           files (snd (snd (dispose E h s1))) ''.npmrc'' = files s ''.npmrc'' \<and>
           (\<forall>k. \<not> prefix ''.npmrc/'' k \<longrightarrow> files (snd (snd (dispose E h s1))) k = files s k) \<and>
           (\<forall>s2. files s2 ''.npmrc'' \<noteq> Some Dir \<longrightarrow>
              fst (dispose E h s2) = Returned () \<and>
              files (snd (snd (dispose E h s2))) ''.npmrc'' = files s ''.npmrc'')))"
proof -
  assume nd: "files s ''.npmrc'' \<noteq> Some Dir"
  show ?thesis
  proof (cases "files s ''.npmrc''")
    case None
    then show ?thesis
      by (simp add: createNpmrcFile_run[OF nd] dispose_remove under_npmrc)
  next
    case (Some n)
    with nd obtain c where c: "files s ''.npmrc'' = Some (File c)" by (cases n) auto
    then show ?thesis
      by (auto simp: createNpmrcFile_run[OF nd] dispose_restore)
  qed
qed

theorem credential_file_round_trip_witness:
  "files sample_copied ''.npmrc'' = Some (File ''secret'')
   \<and> fst (createNpmrcFile ''http://localhost:4873'' sample_copied) = Returned (NpmrcRestore ''secret'')
   \<and> files (snd (snd (dispose sample_env (NpmrcRestore ''secret'')
        (snd (snd (createNpmrcFile ''http://localhost:4873'' sample_copied)))))) ''.npmrc''
      = Some (File ''secret'')
   \<and> fst (createNpmrcFile ''http://localhost:4873'' \<lparr>files = Map.empty, disposables = []\<rparr>)
      = Returned NpmrcRemove
   \<and> files (snd (snd (dispose sample_env NpmrcRemove
        (snd (snd (createNpmrcFile ''http://localhost:4873'' \<lparr>files = Map.empty, disposables = []\<rparr>))))))
        ''.npmrc''
      = None"
proof -
  have a: "files sample_copied ''.npmrc'' = Some (File ''secret'')"
    by (simp add: sample_defs)
  have b: "files \<lparr>files = Map.empty, disposables = []\<rparr> ''.npmrc'' = None" by simp
  from credential_file_round_trip[of sample_copied "''http://localhost:4873''" sample_env] a
  have 1: "fst (createNpmrcFile ''http://localhost:4873'' sample_copied) = Returned (NpmrcRestore ''secret'')
     \<and> files (snd (snd (dispose sample_env (NpmrcRestore ''secret'')
        (snd (snd (createNpmrcFile ''http://localhost:4873'' sample_copied)))))) ''.npmrc''
      = Some (File ''secret'')"
    by (simp add: split_def)
  from credential_file_round_trip[of "\<lparr>files = Map.empty, disposables = []\<rparr>" "''http://localhost:4873''" sample_env] b
  have 2: "fst (createNpmrcFile ''http://localhost:4873'' \<lparr>files = Map.empty, disposables = []\<rparr>)
      = Returned NpmrcRemove
     \<and> files (snd (snd (dispose sample_env NpmrcRemove
        (snd (snd (createNpmrcFile ''http://localhost:4873'' \<lparr>files = Map.empty, disposables = []\<rparr>))))))
        ''.npmrc''
      = None"
    by (simp add: split_def)
  from a 1 2 show ?thesis by simp
qed

subsection \<open>The merge of the resolutions\<close>

lemma map_of_update_in_place:
  "map_of (map (\<lambda>p. if fst p = k then (k, v) else p) ps) =
     (if k \<in> set (map fst ps) then (map_of ps)(k \<mapsto> v) else map_of ps)"
  by (induction ps) (auto simp: fun_eq_iff)

lemma map_of_insert_key:
  "k \<notin> set (map fst ps) \<Longrightarrow> map_of (insert_key k v ps) = (map_of ps)(k \<mapsto> v)"
  by (induction ps) (auto simp: fun_eq_iff)

lemma map_of_define_prop: "map_of (define_prop k v ps) = (map_of ps)(k \<mapsto> v)"
  by (simp add: define_prop_def map_of_update_in_place map_of_insert_key)

lemma map_of_foldl_define:
  "map_of (foldl (\<lambda>ps p. define_prop (fst p) (snd p) ps) acc xs) = map_of acc ++ map_of (rev xs)"
proof (induction xs arbitrary: acc)
  case Nil
  then show ?case by simp
next
  case (Cons x xs)
  show ?case
    by (cases x)
       (auto simp: Cons.IH map_of_define_prop fun_eq_iff map_add_def split: option.splits)
qed

lemma map_of_rev_distinct: "distinct (map fst xs) \<Longrightarrow> map_of (rev xs) = map_of xs"
proof (induction xs)
  case Nil
  then show ?case by simp
next
  case (Cons x xs)
  then have "fst x \<notin> dom (map_of xs)" by (simp add: dom_map_of_conv_image_fst)
  with Cons show ?case
    by (cases x) (auto simp: fun_eq_iff map_add_def domIff split: option.splits)
qed

lemma spread_merge_map:
  assumes "distinct (map fst (own_props a))" and "distinct (map fst (own_props b))"
  shows "\<exists>m. spread_merge a b = JObj m \<and> map_of m = map_of (own_props a) ++ map_of (own_props b)"
  using assms
  by (simp add: spread_merge_def map_of_foldl_define map_of_rev_distinct)

lemma readJSONSync_run:
  "files s p = Some (File c) \<Longrightarrow> json_parse E c = Inr j \<Longrightarrow>
   readJSONSync E p s = (Returned j, [FsReadJson p], s)"
  by (simp add: readJSONSync_def read_node_def lift_def io_then_def io_bind_def emit_def io_return_def)

lemma adaptApp_untouched:
  assumes "files s ''package.json'' = Some (File rc)" and "json_parse E rc = Inr rootj"
    and "get_resolutions rootj = Inr r" and "\<not> truthy r"
  shows "adaptApp E t s = (Returned (), [FsReadJson ''package.json''], s)"
  using assms
  by (simp add: adaptApp_def io_bind_def readJSONSync_run lift_def io_return_def)

lemma adaptApp_merges:
  assumes "files s ''package.json'' = Some (File rc)" and "json_parse E rc = Inr rootj"
    and "get_resolutions rootj = Inr (Some (JObj rm))"
    and "files s (t @ ''package.json'') = Some (File ac)" and "json_parse E ac = Inr (JObj am)"
  shows "adaptApp E t s =
    (Returned (),
     [FsReadJson ''package.json'', FsReadJson (t @ ''package.json''),
      FsWriteJson (t @ ''package.json'')
        (JObj (define_prop ''resolutions''
                 (spread_merge (map_of am ''resolutions'') (Some (JObj rm))) am))],
     s\<lparr>files := (files s)(t @ ''package.json'' \<mapsto>
          File (json_stringify E
            (JObj (define_prop ''resolutions''
                     (spread_merge (map_of am ''resolutions'') (Some (JObj rm))) am))))\<rparr>)"
  using assms
  by (simp add: adaptApp_def io_bind_def readJSONSync_run lift_def io_return_def truthy_def
        get_resolutions_def set_resolutions_def writeJSONSync_def write_node_def io_then_def
        emit_def set_files_def)

text \<open>
  Claim C5. When the root manifest has an object as its resolutions, \<open>adaptApp\<close> reads
  the manifest of the copied application and writes it back with its resolutions
  replaced by the merge: the keys of both, with the root's value wherever both have the
  key; every other field of the manifest keeps its value. (A JSON object has each key
  once; the resolutions of the copy may also be absent.) When the root manifest has no
  resolutions, or a falsy value there, \<open>adaptApp\<close> reads the root manifest and nothing
  else: no file is written and the state is as before.
\<close>

theorem adaptApp_merges_root_resolutions:
  "files s ''package.json'' = Some (File rc) \<Longrightarrow> json_parse E rc = Inr rootj \<Longrightarrow>
   (\<forall>r. get_resolutions rootj = Inr r \<and> \<not> truthy r \<longrightarrow>
      adaptApp E t s = (Returned (), [FsReadJson ''package.json''], s)) \<and>
   (\<forall>rm ac am.
      get_resolutions rootj = Inr (Some (JObj rm)) \<and> distinct (map fst rm) \<and>
      files s (t @ ''package.json'') = Some (File ac) \<and> json_parse E ac = Inr (JObj am) \<and>
      distinct (map fst (own_props (map_of am ''resolutions''))) \<longrightarrow>
      (let merged = spread_merge (map_of am ''resolutions'') (Some (JObj rm));
           written = JObj (define_prop ''resolutions'' merged am)
       in adaptApp E t s =
            (Returned (),
             [FsReadJson ''package.json'', FsReadJson (t @ ''package.json''),
              FsWriteJson (t @ ''package.json'') written],
             s\<lparr>files := (files s)(t @ ''package.json'' \<mapsto> File (json_stringify E written))\<rparr>) \<and>
          (\<exists>m. merged = JObj m \<and>
               map_of m = map_of (own_props (map_of am ''resolutions'')) ++ map_of rm) \<and>
          map_of (define_prop ''resolutions'' merged am) = (map_of am)(''resolutions'' \<mapsto> merged)))"
proof -
  assume root_file: "files s ''package.json'' = Some (File rc)" "json_parse E rc = Inr rootj"
  have 1: "\<forall>r. get_resolutions rootj = Inr r \<and> \<not> truthy r \<longrightarrow>
      adaptApp E t s = (Returned (), [FsReadJson ''package.json''], s)"
    using adaptApp_untouched[OF root_file] by blast
  have 2: "\<forall>rm ac am.
      get_resolutions rootj = Inr (Some (JObj rm)) \<and> distinct (map fst rm) \<and>
      files s (t @ ''package.json'') = Some (File ac) \<and> json_parse E ac = Inr (JObj am) \<and>
      distinct (map fst (own_props (map_of am ''resolutions''))) \<longrightarrow>
      (let merged = spread_merge (map_of am ''resolutions'') (Some (JObj rm));
           written = JObj (define_prop ''resolutions'' merged am)
       in adaptApp E t s =
            (Returned (),
             [FsReadJson ''package.json'', FsReadJson (t @ ''package.json''),
              FsWriteJson (t @ ''package.json'') written],
             s\<lparr>files := (files s)(t @ ''package.json'' \<mapsto> File (json_stringify E written))\<rparr>) \<and>
          (\<exists>m. merged = JObj m \<and>
               map_of m = map_of (own_props (map_of am ''resolutions'')) ++ map_of rm) \<and>
          map_of (define_prop ''resolutions'' merged am) = (map_of am)(''resolutions'' \<mapsto> merged))"
  proof (intro allI impI)
    fix rm ac am
    assume h: "get_resolutions rootj = Inr (Some (JObj rm)) \<and> distinct (map fst rm) \<and>
      files s (t @ ''package.json'') = Some (File ac) \<and> json_parse E ac = Inr (JObj am) \<and>
      distinct (map fst (own_props (map_of am ''resolutions'')))"
    then have run: "adaptApp E t s =
      (Returned (),
       [FsReadJson ''package.json'', FsReadJson (t @ ''package.json''),
        FsWriteJson (t @ ''package.json'')
          (JObj (define_prop ''resolutions''
                   (spread_merge (map_of am ''resolutions'') (Some (JObj rm))) am))],
       s\<lparr>files := (files s)(t @ ''package.json'' \<mapsto>
            File (json_stringify E
              (JObj (define_prop ''resolutions''
                       (spread_merge (map_of am ''resolutions'') (Some (JObj rm))) am))))\<rparr>)"
      using adaptApp_merges[OF root_file] by blast
    from h have "distinct (map fst (own_props (Some (JObj rm))))" by (simp add: own_props_def)
    with h spread_merge_map[of "map_of am ''resolutions''" "Some (JObj rm)"]
    have m: "\<exists>m. spread_merge (map_of am ''resolutions'') (Some (JObj rm)) = JObj m \<and>
        map_of m = map_of (own_props (map_of am ''resolutions'')) ++ map_of rm"
      by (simp add: own_props_def)
    from run m show "let merged = spread_merge (map_of am ''resolutions'') (Some (JObj rm));
           written = JObj (define_prop ''resolutions'' merged am)
       in adaptApp E t s =
            (Returned (),
             [FsReadJson ''package.json'', FsReadJson (t @ ''package.json''),
              FsWriteJson (t @ ''package.json'') written],
             s\<lparr>files := (files s)(t @ ''package.json'' \<mapsto> File (json_stringify E written))\<rparr>) \<and>
          (\<exists>m. merged = JObj m \<and>
               map_of m = map_of (own_props (map_of am ''resolutions'')) ++ map_of rm) \<and>
          map_of (define_prop ''resolutions'' merged am) = (map_of am)(''resolutions'' \<mapsto> merged)"
      by (simp add: Let_def map_of_define_prop)
  qed
  from 1 2 show ?thesis by blast
qed

theorem adaptApp_merges_root_resolutions_witness:
  "adaptApp sample_env ''../target/'' sample_copied_plain
     = (Returned (), [FsReadJson ''package.json''], sample_copied_plain)
   \<and> fst (snd (adaptApp sample_env ''../target/'' sample_copied))
     = [FsReadJson ''package.json'', FsReadJson ''../target/package.json'',
        FsWriteJson ''../target/package.json''
          (JObj [(''name'', JStr ''app''),
                 (''resolutions'', JObj [(''x'', JStr ''1.0''), (''y'', JStr ''2.0'')])])]
   \<and> spread_merge (Some (JObj [(''x'', JStr ''0.9''), (''y'', JStr ''2.0'')]))
        (Some (JObj [(''x'', JStr ''1.0'')]))
     = JObj [(''x'', JStr ''1.0''), (''y'', JStr ''2.0'')]"
proof -
  let ?am = "[(''name'', JStr ''app''),
              (''resolutions'', JObj [(''x'', JStr ''0.9''), (''y'', JStr ''2.0'')])]"
  let ?rm = "[(''x'', JStr ''1.0'')]"
  have p1: "files sample_copied_plain ''package.json'' = Some (File ''N'')"
    and p2: "json_parse sample_env ''N'' = Inr sample_plain"
    by (simp_all add: sample_defs)
  have p3: "get_resolutions sample_plain = Inr None \<and> \<not> truthy None"
    by (simp add: sample_defs get_resolutions_def truthy_def)
  have m1: "files sample_copied ''package.json'' = Some (File ''R'')"
    and m2: "json_parse sample_env ''R'' = Inr sample_root"
    by (simp_all add: sample_defs)
  have m3: "get_resolutions sample_root = Inr (Some (JObj ?rm)) \<and> distinct (map fst ?rm) \<and>
      files sample_copied (''../target/'' @ ''package.json'') = Some (File ''A'') \<and>
      json_parse sample_env ''A'' = Inr (JObj ?am) \<and>
      distinct (map fst (own_props (map_of ?am ''resolutions'')))"
    by (simp add: sample_defs get_resolutions_def own_props_def)
  have v: "spread_merge (Some (JObj [(''x'', JStr ''0.9''), (''y'', JStr ''2.0'')])) (Some (JObj ?rm))
      = JObj [(''x'', JStr ''1.0''), (''y'', JStr ''2.0'')]"
    by (simp add: spread_merge_def own_props_def define_prop_def key_before_def array_index_def
          is_digit_def)
  have w: "define_prop ''resolutions'' (JObj [(''x'', JStr ''1.0''), (''y'', JStr ''2.0'')]) ?am
      = [(''name'', JStr ''app''),
         (''resolutions'', JObj [(''x'', JStr ''1.0''), (''y'', JStr ''2.0'')])]"
    by (simp add: define_prop_def)
  from adaptApp_merges_root_resolutions[OF p1 p2, of "''../target/''"] p3
  have a: "adaptApp sample_env ''../target/'' sample_copied_plain
     = (Returned (), [FsReadJson ''package.json''], sample_copied_plain)"
    by blast
  note c2 = adaptApp_merges_root_resolutions[OF m1 m2, of "''../target/''", THEN conjunct2,
      rule_format, of ?rm "''A''" ?am, OF m3]
  then have "fst (snd (adaptApp sample_env ''../target/'' sample_copied))
        = [FsReadJson ''package.json'', FsReadJson (''../target/'' @ ''package.json''),
           FsWriteJson (''../target/'' @ ''package.json'')
             (JObj (define_prop ''resolutions''
                (spread_merge (map_of ?am ''resolutions'') (Some (JObj ?rm))) ?am))]"
    by (simp add: Let_def)
  then have b: "fst (snd (adaptApp sample_env ''../target/'' sample_copied))
     = [FsReadJson ''package.json'', FsReadJson ''../target/package.json'',
        FsWriteJson ''../target/package.json''
          (JObj [(''name'', JStr ''app''),
                 (''resolutions'', JObj [(''x'', JStr ''1.0''), (''y'', JStr ''2.0'')])])]"
    by (simp add: v w)
  from a b v show ?thesis by simp
qed

end
